theory Spec2Isabelle
  imports Main "HOL-Library.Sublist" "HOL-Library.AList"
begin

section \<open>Strings\<close>

text \<open>
  JavaScript strings are modelled as \<^typ>\<open>string\<close>, one \<^typ>\<open>char\<close> per code unit below 256.
  \<open>is_space\<close> holds of the code units below 256 that the regular expression class \<open>\s\<close> and
  \<open>String.prototype.trim\<close> treat as white space: TAB, LF, VT, FF, CR, SPACE and NBSP.
\<close>

definition is_space :: "char \<Rightarrow> bool" where
  "is_space c \<longleftrightarrow> c \<in> set [CHR 0x09, CHR 0x0A, CHR 0x0B, CHR 0x0C, CHR 0x0D, CHR 0x20, CHR 0xA0]"

text \<open>\<open>s.trim()\<close>\<close>

definition trim :: "string \<Rightarrow> string" where
  "trim s = rev (dropWhile is_space (rev (dropWhile is_space s)))"

text \<open>
  \<open>s.split(/\s+/)\<close>: the pieces between the maximal runs of white space. A leading or a
  trailing run leaves an empty piece, and the empty string gives the one-element list
  holding the empty string, as in JavaScript.
\<close>

function split_ws :: "string \<Rightarrow> string list" where
  "split_ws s =
     (case dropWhile (\<lambda>c. \<not> is_space c) s of
        [] \<Rightarrow> [s]
      | c # r \<Rightarrow> takeWhile (\<lambda>c. \<not> is_space c) s # split_ws (dropWhile is_space r))"
  by pat_completeness auto
termination
proof (relation "measure length")
  show "wf (measure length)" by simp
next
  fix s :: string and c r
  assume h: "dropWhile (\<lambda>c. \<not> is_space c) s = c # r"
  have "length (dropWhile is_space r) \<le> length r"
    by (rule length_dropWhile_le)
  moreover have "length (c # r) \<le> length s"
    using length_dropWhile_le [of "\<lambda>c. \<not> is_space c" s] h by simp
  ultimately show "(dropWhile is_space r, s) \<in> measure length"
    by simp
qed

declare split_ws.simps [simp del]

text \<open>\<open>command.trim().split(/\s+/)\<close>, the word list every classifier starts from.\<close>

definition words_of :: "string \<Rightarrow> string list" where
  "words_of command = split_ws (trim command)"

text \<open>\<open>command.trim().split(/\s+/)[0]\<close>; the list is never empty.\<close>

definition firstWord :: "string \<Rightarrow> string" where
  "firstWord command = (case words_of command of [] \<Rightarrow> [] | w # _ \<Rightarrow> w)"

text \<open>
  \<open>command.split(/\s*(?:&&|\|\||;|\|)\s*/)\<close>. The pattern needs one of the four operators, so
  the string is cut at the operators found from left to right, \<open>&&\<close> and \<open>||\<close> before the
  single \<open>|\<close>. The white space the pattern eats around an operator is left on the segments
  here: \<open>isVerboseCommand\<close> trims every segment before it reads it, and the white space of
  \<open>\s\<close> is the white space of \<open>trim\<close>.
\<close>

fun split_ops :: "string \<Rightarrow> string list" where
  "split_ops [] = [[]]"
| "split_ops (c # cs) =
     (if c = CHR ''&'' \<and> (case cs of [] \<Rightarrow> False | d # _ \<Rightarrow> d = CHR ''&'') then [] # split_ops (tl cs)
      else if c = CHR ''|'' \<and> (case cs of [] \<Rightarrow> False | d # _ \<Rightarrow> d = CHR ''|'') then [] # split_ops (tl cs)
      else if c = CHR '';'' \<or> c = CHR ''|'' then [] # split_ops cs
      else (case split_ops cs of [] \<Rightarrow> [[c]] | seg # segs \<Rightarrow> (c # seg) # segs))"

section \<open>Catalogs (lib/constants.js)\<close>

definition SAFE_COMMANDS :: "string list" where
  "SAFE_COMMANDS =
    [''cd'', ''ls'', ''pwd'', ''tree'', ''find'', ''locate'', ''which'', ''whereis'', ''type'',
     ''cat'', ''head'', ''tail'', ''less'', ''more'', ''file'', ''stat'', ''wc'', ''diff'',
     ''grep'', ''egrep'', ''fgrep'', ''rg'', ''ag'', ''awk'', ''sed'', ''sort'', ''uniq'', ''cut'',
     ''tr'', ''whoami'', ''hostname'', ''uname'', ''date'', ''uptime'', ''env'', ''printenv'',
     ''id'', ''git status'', ''git log'', ''git branch'', ''git diff'', ''git show'',
     ''git remote'', ''git config --get'', ''git config --list'', ''git rev-parse'',
     ''git describe'', ''ps'', ''top'', ''htop'', ''df'', ''du'', ''free'', ''lsof'', ''ping'',
     ''curl'', ''wget'', ''nslookup'', ''dig'', ''host'', ''node --version'', ''npm --version'',
     ''pnpm --version'', ''yarn --version'', ''python --version'', ''python3 --version'',
     ''pip --version'', ''go version'', ''rustc --version'', ''cargo --version'',
     ''java -version'', ''javac -version'']"

definition VERBOSE_COMMANDS :: "string list" where
  "VERBOSE_COMMANDS =
    [''npm'', ''yarn'', ''pnpm'', ''pip'', ''apt'', ''apt-get'', ''brew'', ''docker'',
     ''docker-compose'', ''make'', ''cargo'', ''tsc'', ''webpack'', ''vite'', ''eslint'',
     ''prettier'', ''npx'']"

definition MIN_LINES :: nat where
  "MIN_LINES = 30"

section \<open>Command classification (lib/permissions.js)\<close>

definition isSafeCommand :: "string \<Rightarrow> bool" where
  "isSafeCommand command \<longleftrightarrow>
     list_ex (\<lambda>safe. command = safe \<or> prefix (safe @ '' '') command \<or> firstWord command = safe)
       SAFE_COMMANDS"

definition isVerboseCommand :: "string \<Rightarrow> bool" where
  "isVerboseCommand command \<longleftrightarrow>
     list_ex (\<lambda>cmd. list_ex (\<lambda>vc. firstWord cmd = vc \<or> prefix (vc @ ''-'') (firstWord cmd))
                       VERBOSE_COMMANDS)
       (split_ops command)"

definition getCommandPrefix :: "string \<Rightarrow> string" where
  "getCommandPrefix command =
     (case words_of command of
        w0 # w1 # _ \<Rightarrow> w0 @ '' '' @ w1
      | [w0] \<Rightarrow> w0
      | [] \<Rightarrow> [])"

section \<open>Persisted stores\<close>

text \<open>
  Both stores are JSON files. \<open>json\<close> is what \<open>JSON.parse\<close> returns: an object is the list
  of its members in insertion order, with distinct keys. Only the truthiness of a number is
  ever used, so numbers are integers here.
\<close>

datatype json =
    JNull
  | JBool bool
  | JNum int
  | JStr string
  | JArr "json list"
  | JObj "(string \<times> json) list"

text \<open>
  A file as the code observes it: \<open>existsSync\<close> is false (\<open>Absent\<close>), \<open>JSON.parse\<close> of its text
  throws (\<open>Unparseable\<close>), or \<open>JSON.parse\<close> returns a value. Writing \<open>JSON.stringify v\<close> leaves
  a file that parses to \<open>v\<close> again; \<open>writeFileSync\<close>, \<open>mkdirSync\<close> and the debug log are taken
  to succeed.
\<close>

datatype store_file = Absent | Unparseable | Parsed json

datatype js_error = ReadError | SyntaxError | TypeError | SpawnException string

text \<open>A JavaScript value read from parsed JSON; \<open>None\<close> is \<open>undefined\<close>.\<close>

fun truthy :: "json option \<Rightarrow> bool" where
  "truthy None = False"
| "truthy (Some JNull) = False"
| "truthy (Some (JBool b)) = b"
| "truthy (Some (JNum n)) = (n \<noteq> 0)"
| "truthy (Some (JStr s)) = (s \<noteq> [])"
| "truthy (Some (JArr _)) = True"
| "truthy (Some (JObj _)) = True"

text \<open>
  \<open>v.k\<close> for \<open>k\<close> one of \<open>commands\<close>, \<open>permissions\<close>, \<open>allow\<close>: a TypeError on \<open>null\<close>, the
  member of an object, and \<open>undefined\<close> on every other value (no prototype has these names).
\<close>

fun get_prop :: "json \<Rightarrow> string \<Rightarrow> js_error + json option" where
  "get_prop JNull k = Inl TypeError"
| "get_prop (JObj kvs) k = Inr (map_of kvs k)"
| "get_prop _ k = Inr None"

text \<open>\<open>v?.k\<close>\<close>

fun opt_prop :: "json option \<Rightarrow> string \<Rightarrow> json option" where
  "opt_prop (Some (JObj kvs)) k = map_of kvs k"
| "opt_prop _ k = None"

text \<open>\<open>v || []\<close>\<close>

fun or_empty :: "json option \<Rightarrow> json" where
  "or_empty None = JArr []"
| "or_empty (Some j) = (if truthy (Some j) then j else JArr [])"

text \<open>
  The file system the permission code touches: the one-time store at \<open>ALLOW_ONCE_FILE\<close> and,
  for each project directory, its \<open>.claude/settings.local.json\<close>. A directory is named by
  its path as \<open>path.join\<close> normalises it.
\<close>

record fs =
  once_file :: store_file
  settings_file :: "string \<Rightarrow> store_file"

text \<open>\<open>cwd || process.cwd()\<close>; an absent and an empty \<open>cwd\<close> are both falsy.\<close>

definition projectDir :: "string \<Rightarrow> string option \<Rightarrow> string" where
  "projectDir process_cwd cwd =
     (case cwd of None \<Rightarrow> process_cwd | Some d \<Rightarrow> if d = [] then process_cwd else d)"

subsection \<open>One-time store\<close>

text \<open>
  The body of the \<open>try\<close> block of \<open>isAllowedOnce\<close>. \<open>indexOf\<close> finds the first element
  strictly equal to the command in an array, and the first occurrence as a substring in a
  string; no other value has it. \<open>splice\<close> exists on arrays only, so a string that holds the
  command raises before anything is written.
\<close>

definition isAllowedOnce_try :: "string \<Rightarrow> store_file \<Rightarrow> js_error + (bool \<times> store_file)" where
  "isAllowedOnce_try command f =
     (case f of
        Parsed data \<Rightarrow>
          (case get_prop data ''commands'' of
             Inl e \<Rightarrow> Inl e
           | Inr v \<Rightarrow>
               (case or_empty v of
                  JArr xs \<Rightarrow>
                    if JStr command \<in> set xs
                    then Inr (True, Parsed (JObj [(''commands'', JArr (remove1 (JStr command) xs))]))
                    else Inr (False, f)
                | JStr s \<Rightarrow> if sublist command s then Inl TypeError else Inr (False, f)
                | _ \<Rightarrow> Inl TypeError))
      | Unparseable \<Rightarrow> Inl SyntaxError
      | Absent \<Rightarrow> Inl ReadError)"

text \<open>\<open>isAllowedOnce\<close>: the answer and the one-time store file afterwards.\<close>

definition isAllowedOnce :: "string \<Rightarrow> store_file \<Rightarrow> bool \<times> store_file" where
  "isAllowedOnce command f =
     (if f = Absent then (False, f)
      else (case isAllowedOnce_try command f of Inl e \<Rightarrow> (False, f) | Inr r \<Rightarrow> r))"

text \<open>
  \<open>addAllowOnce\<close>: the one-time store file afterwards, or the error that escapes (only the
  load is inside \<open>try\<close>). The module is strict code, so giving a primitive a property raises;
  an array takes the property \<open>commands\<close>, but \<open>JSON.stringify\<close> writes an array's elements
  only.
\<close>

definition addAllowOnce :: "string \<Rightarrow> store_file \<Rightarrow> js_error + store_file" where
  "addAllowOnce command f =
     (case f of
        Absent \<Rightarrow> Inr (Parsed (JObj [(''commands'', JArr [JStr command])]))
      | Unparseable \<Rightarrow> Inr (Parsed (JObj [(''commands'', JArr [JStr command])]))
      | Parsed (JArr xs) \<Rightarrow> Inr (Parsed (JArr xs))
      | Parsed (JObj kvs) \<Rightarrow>
          (case or_empty (map_of kvs ''commands'') of
             JArr xs \<Rightarrow>
               if JStr command \<in> set xs then Inr f
               else Inr (Parsed (JObj (AList.update ''commands'' (JArr (xs @ [JStr command])) kvs)))
           | JStr s \<Rightarrow> if sublist command s then Inr f else Inl TypeError
           | _ \<Rightarrow> Inl TypeError)
      | Parsed _ \<Rightarrow> Inl TypeError)"

subsection \<open>Durable rule store\<close>

text \<open>\<open>`mcp__compressed-shell__shell(command:${x})`\<close>\<close>

definition shell_rule :: "string \<Rightarrow> string" where
  "shell_rule x = ''mcp__compressed-shell__shell(command:'' @ x @ '')''"

text \<open>
  \<open>rule.match(/^Bash\((.+?):\*\)$/)\<close>: the rule is \<open>Bash(\<close>, a non-empty group and \<open>:*)\<close>, the
  end anchor fixing the group; \<open>.\<close> takes no line terminator. The result is the group.
\<close>

definition bashMatch :: "string \<Rightarrow> string option" where
  "bashMatch rule =
     (let g = take (length rule - 8) (drop 5 rule) in
      if prefix ''Bash('' rule \<and> suffix '':*)'' rule \<and> 9 \<le> length rule
         \<and> CHR 0x0A \<notin> set g \<and> CHR 0x0D \<notin> set g
      then Some g else None)"

text \<open>The tests one string rule goes through in the loop of \<open>isCommandAllowed\<close>.\<close>

definition rule_allows :: "string \<Rightarrow> string \<Rightarrow> bool" where
  "rule_allows command rule \<longleftrightarrow>
     rule = shell_rule command
     \<or> rule = shell_rule (getCommandPrefix command @ '' *'')
     \<or> rule = shell_rule (firstWord command @ '' *'')
     \<or> (case bashMatch rule of
           None \<Rightarrow> False
         | Some bashPrefix \<Rightarrow> command = bashPrefix \<or> prefix (bashPrefix @ '' '') command)"

text \<open>
  The loop over the allow list. An element that is not a string fails the three
  comparisons and then raises at \<open>rule.match\<close>.
\<close>

fun rules_loop :: "string \<Rightarrow> json list \<Rightarrow> js_error + bool" where
  "rules_loop command [] = Inr False"
| "rules_loop command (JStr rule # rs) =
     (if rule_allows command rule then Inr True else rules_loop command rs)"
| "rules_loop command (_ # rs) = Inl TypeError"

text \<open>
  The body of the \<open>try\<close> block of \<open>isCommandAllowed\<close>. \<open>for ... of\<close> walks the elements of an
  array and the characters of a string; any other truthy value is not iterable.
\<close>

definition isCommandAllowed_try :: "string \<Rightarrow> store_file \<Rightarrow> js_error + bool" where
  "isCommandAllowed_try command f =
     (case f of
        Parsed settings \<Rightarrow>
          (case or_empty (opt_prop (opt_prop (Some settings) ''permissions'') ''allow'') of
             JArr rules \<Rightarrow> rules_loop command rules
           | JStr s \<Rightarrow> rules_loop command (map (\<lambda>c. JStr [c]) s)
           | _ \<Rightarrow> Inl TypeError)
      | Unparseable \<Rightarrow> Inl SyntaxError
      | Absent \<Rightarrow> Inl ReadError)"

definition isCommandAllowed_file :: "string \<Rightarrow> store_file \<Rightarrow> bool" where
  "isCommandAllowed_file command f =
     (if f = Absent then False
      else (case isCommandAllowed_try command f of Inl e \<Rightarrow> False | Inr b \<Rightarrow> b))"

text \<open>\<open>isCommandAllowed(command, cwd)\<close>; it only reads.\<close>

definition isCommandAllowed :: "string \<Rightarrow> fs \<Rightarrow> string \<Rightarrow> string option \<Rightarrow> bool" where
  "isCommandAllowed process_cwd s command cwd =
     isCommandAllowed_file command (settings_file s (projectDir process_cwd cwd))"

datatype grant_result = AlreadyExists string | Added string

text \<open>
  \<open>addToProjectSettings\<close> on the settings file of the project: what it returns and the file
  afterwards, or the error that escapes. As in \<open>addAllowOnce\<close>, a property given to an array
  is not written back.
\<close>

definition addToProjectSettings_file :: "string \<Rightarrow> store_file \<Rightarrow> js_error + (grant_result \<times> store_file)" where
  "addToProjectSettings_file commandPrefix f =
     (let permission = shell_rule (commandPrefix @ '' *'');
          fresh = JObj [(''allow'', JArr [JStr permission])]
      in case f of
        Absent \<Rightarrow> Inr (Added permission, Parsed (JObj [(''permissions'', fresh)]))
      | Unparseable \<Rightarrow> Inr (Added permission, Parsed (JObj [(''permissions'', fresh)]))
      | Parsed (JArr xs) \<Rightarrow> Inr (Added permission, Parsed (JArr xs))
      | Parsed (JObj kvs) \<Rightarrow>
          (if \<not> truthy (map_of kvs ''permissions'')
           then Inr (Added permission, Parsed (JObj (AList.update ''permissions'' fresh kvs)))
           else (case map_of kvs ''permissions'' of
               Some (JObj pkvs) \<Rightarrow>
                 (case or_empty (map_of pkvs ''allow'') of
                    JArr xs \<Rightarrow>
                      if JStr permission \<in> set xs then Inr (AlreadyExists permission, f)
                      else Inr (Added permission,
                        Parsed (JObj (AList.update ''permissions''
                          (JObj (AList.update ''allow'' (JArr (xs @ [JStr permission])) pkvs)) kvs)))
                  | JStr s \<Rightarrow>
                      if sublist permission s then Inr (AlreadyExists permission, f)
                      else Inl TypeError
                  | _ \<Rightarrow> Inl TypeError)
             | Some (JArr pxs) \<Rightarrow> Inr (Added permission, f)
             | _ \<Rightarrow> Inl TypeError))
      | Parsed _ \<Rightarrow> Inl TypeError)"

definition addToProjectSettings ::
  "string \<Rightarrow> fs \<Rightarrow> string \<Rightarrow> string option \<Rightarrow> js_error + (grant_result \<times> fs)" where
  "addToProjectSettings process_cwd s commandPrefix cwd =
     (let dir = projectDir process_cwd cwd in
      case addToProjectSettings_file commandPrefix (settings_file s dir) of
        Inl e \<Rightarrow> Inl e
      | Inr (r, f') \<Rightarrow> Inr (r, s\<lparr>settings_file := (settings_file s)(dir := f')\<rparr>))"

section \<open>Granting permissions (tools/allow-once.js, tools/allow-command.js)\<close>

text \<open>A tool response: its text and its error flag (false where the source leaves it out).\<close>

record response =
  text_of :: string
  isError :: bool

definition NL :: string where
  "NL = [CHR 0x0A]"

definition quoted :: "string \<Rightarrow> string" where
  "quoted s = [CHR 0x22] @ s @ [CHR 0x22]"

text \<open>
  \<open>handleAllowOnceTool\<close>: an empty or blank command is answered with an error and nothing
  is stored; otherwise the trimmed command goes to \<open>addAllowOnce\<close>.
\<close>

definition handleAllowOnceTool :: "fs \<Rightarrow> string \<Rightarrow> js_error + (response \<times> fs)" where
  "handleAllowOnceTool s command =
     (if command = [] \<or> trim command = []
      then Inr (\<lparr>text_of = ''Error: command is required'', isError = True\<rparr>, s)
      else (case addAllowOnce (trim command) (once_file s) of
              Inl e \<Rightarrow> Inl e
            | Inr f' \<Rightarrow>
                Inr (\<lparr>text_of = ''Allowed once: '' @ quoted command @ NL @ NL
                       @ ''You can now retry the command. This permission will be consumed after execution.'',
                      isError = False\<rparr>,
                     s\<lparr>once_file := f'\<rparr>)))"

text \<open>\<open>handleAllowCommandTool\<close>, with the same check and the same trimming.\<close>

definition handleAllowCommandTool ::
  "string \<Rightarrow> fs \<Rightarrow> string \<Rightarrow> string option \<Rightarrow> js_error + (response \<times> fs)" where
  "handleAllowCommandTool process_cwd s command_prefix cwd =
     (if command_prefix = [] \<or> trim command_prefix = []
      then Inr (\<lparr>text_of = ''Error: command_prefix is required'', isError = True\<rparr>, s)
      else (case addToProjectSettings process_cwd s (trim command_prefix) cwd of
              Inl e \<Rightarrow> Inl e
            | Inr (AlreadyExists permission, s') \<Rightarrow>
                Inr (\<lparr>text_of = ''Permission already exists: '' @ permission, isError = False\<rparr>, s')
            | Inr (Added permission, s') \<Rightarrow>
                Inr (\<lparr>text_of = ''PERMANENTLY ALLOWED: '' @ permission @ NL @ NL
                       @ ''All '' @ quoted command_prefix
                       @ '' commands are now allowed in this project.'' @ NL
                       @ ''You can now retry the command.'',
                      isError = False\<rparr>, s')))"

section \<open>Execution (lib/execution.js)\<close>

record exec_result =
  exitCode :: int
  stdout :: string
  stderr :: string
  duration :: string

text \<open>
  What \<open>spawn\<close> and the process do, as \<open>executeCommand\<close> sees it, with the data the two
  streams delivered and the elapsed time as \<open>toFixed(2)\<close> prints it:
  \<^item> \<open>Close\<close>: the process ran and the event \<open>close\<close> came with the exit code (\<open>null\<close> after
    a signal);
  \<^item> \<open>SpawnError\<close>: the process did not start and the event \<open>error\<close> came with the message
    (the interpreter is missing, or may not be executed);
  \<^item> \<open>SpawnThrows\<close>: \<open>spawn\<close> itself throws (a NUL character in the command or in the
    working directory, an argument list that is too long, any other failure that Node does
    not turn into the event);
  \<^item> \<open>SpawnNoStreams\<close>: \<open>spawn\<close> returns a process without streams (no file descriptor
    is left), and \<open>proc.stdout.on\<close> raises.

  The first two settle the promise. The last two happen inside the executor of the promise,
  which has no \<open>try\<close>: the promise is rejected with the error.
\<close>

datatype proc_event = Close "int option" | SpawnError string | SpawnThrows string | SpawnNoStreams

record proc_run =
  out_data :: string
  err_data :: string
  event :: proc_event
  elapsed :: string

definition executeCommand :: "proc_run \<Rightarrow> js_error + exec_result" where
  "executeCommand r =
     (case event r of
        Close code \<Rightarrow>
          Inr \<lparr>exitCode = (case code of None \<Rightarrow> 0 | Some c \<Rightarrow> c),
               stdout = out_data r, stderr = err_data r, duration = elapsed r\<rparr>
      | SpawnError message \<Rightarrow>
          Inr \<lparr>exitCode = 1, stdout = [], stderr = message, duration = elapsed r\<rparr>
      | SpawnThrows message \<Rightarrow> Inl (SpawnException message)
      | SpawnNoStreams \<Rightarrow> Inl TypeError)"

section \<open>Compression (lib/compression.js)\<close>

text \<open>
  The oracle is the external command line tool, which is handed a fixed prompt around the
  command, the exit code and the output: it prints a text, or \<open>execSync\<close> throws (time out
  after \<open>TIMEOUT_SECONDS\<close>, failure to start, exit code other than 0) with a message. What
  it answers is not in the hands of the code, so the answer is an input here.
  \<open>compressWithHaiku\<close> returns the trimmed text or an object holding the message.
\<close>

datatype oracle_outcome = CliOutput string | CliFailure string

datatype compressed = Text string | ErrorObj string

definition compressWithHaiku :: "oracle_outcome \<Rightarrow> compressed" where
  "compressWithHaiku oc = (case oc of CliOutput result \<Rightarrow> Text (trim result) | CliFailure message \<Rightarrow> ErrorObj message)"

section \<open>The shell tool (tools/shell.js)\<close>

text \<open>Decimal numerals, as a template literal prints a number.\<close>

function show_nat :: "nat \<Rightarrow> string" where
  "show_nat n =
     (if n < 10 then [char_of (48 + n)] else show_nat (n div 10) @ [char_of (48 + n mod 10)])"
  by pat_completeness auto
termination
  by (relation "measure id") auto

declare show_nat.simps [simp del]

definition show_int :: "int \<Rightarrow> string" where
  "show_int i = (if i < 0 then ''-'' @ show_nat (nat (- i)) else show_nat (nat i))"

record shell_args =
  command :: string
  cwd :: "string option"
  compress :: "bool option"

text \<open>What the world gives one request: the working directory of the server, the run of
  the process, the path of the time-stamped log file, and the oracle's outcome.\<close>

record world =
  process_cwd :: string
  run :: proc_run
  logFile :: string
  oracle_result :: oracle_outcome

datatype decision = Allow | Deny

text \<open>
  The permission check at the head of \<open>handleShellTool\<close>: the three answers are computed one
  after the other, each one always, and the request is denied when all three are false.
\<close>

definition permission_check :: "string \<Rightarrow> fs \<Rightarrow> string \<Rightarrow> string option \<Rightarrow> decision \<times> fs" where
  "permission_check pcwd s cmd dir =
     (let safe = isSafeCommand cmd;
          (allowedOnce, f') = isAllowedOnce cmd (once_file s);
          s' = s\<lparr>once_file := f'\<rparr>;
          allowedAlways = isCommandAllowed pcwd s' cmd dir
      in (if \<not> safe \<and> \<not> allowedOnce \<and> \<not> allowedAlways then Deny else Allow, s'))"

definition denial_text :: "string \<Rightarrow> string" where
  "denial_text cmd =
     ''Command not allowed: '' @ quoted cmd @ NL @ NL
     @ ''Ask the user if they want to allow this command. DEFAULT to '' @ quoted ''once''
     @ '' unless user explicitly says '' @ quoted ''always'' @ ''.'' @ NL @ NL
     @ ''To allow ONCE (recommended):'' @ NL
     @ ''  allow_once(command: '' @ quoted cmd @ '')'' @ NL @ NL
     @ ''To allow ALWAYS (will permanently allow ALL '' @ quoted (getCommandPrefix cmd)
     @ '' commands in this project):'' @ NL
     @ ''  allow_command(command_prefix: '' @ quoted (getCommandPrefix cmd) @ '')'' @ NL @ NL
     @ ''Then retry the original command.''"

text \<open>\<open>result.stdout + (result.stderr ? "\n" + result.stderr : "")\<close>\<close>

definition fullOutput :: "exec_result \<Rightarrow> string" where
  "fullOutput result = stdout result @ (if stderr result \<noteq> [] then NL @ stderr result else [])"

text \<open>\<open>fullOutput.split("\n").length\<close>\<close>

definition lineCount :: "string \<Rightarrow> nat" where
  "lineCount out = length (filter (\<lambda>c. c = CHR 0x0A) out) + 1"

definition shouldCompress :: "bool option \<Rightarrow> string \<Rightarrow> nat \<Rightarrow> bool" where
  "shouldCompress flag cmd n \<longleftrightarrow>
     flag = Some True \<or> (flag \<noteq> Some False \<and> isVerboseCommand cmd \<and> MIN_LINES \<le> n)"

text \<open>The text chosen once the oracle has answered.\<close>

definition finalOutput_compressed :: "exec_result \<Rightarrow> string \<Rightarrow> compressed \<Rightarrow> string" where
  "finalOutput_compressed result logf c =
     (case c of
        Text t \<Rightarrow>
          if 10 < length t
          then ''[Compressed from '' @ show_nat (lineCount (fullOutput result)) @ '' lines | Exit: ''
               @ show_int (exitCode result) @ '' | Duration: '' @ duration result @ ''s]'' @ NL
               @ ''[Full output: '' @ logf @ '']'' @ NL @ NL @ t
          else fullOutput result
      | ErrorObj message \<Rightarrow>
          if message \<noteq> []
          then ''[Compression failed: '' @ message @ '']'' @ NL
               @ ''[Full output: '' @ logf @ '']'' @ NL @ NL @ fullOutput result
          else fullOutput result)"

text \<open>
  What one call of \<open>handleShellTool\<close> leaves when it returns: the response, the stores, the
  result of the execution if the command ran, and the log file if one was written (path and
  content), which is written exactly when the oracle is called.
\<close>

record shell_outcome =
  response :: response
  fs_after :: fs
  executed :: "exec_result option"
  artifact :: "(string \<times> string) option"

text \<open>
  \<open>handleShellTool\<close> awaits \<open>executeCommand\<close> outside any \<open>try\<close>: when that promise is
  rejected the call is rejected with the same error (\<open>Inl\<close>, with the stores as the
  permission check left them).
\<close>

definition handleShellTool :: "world \<Rightarrow> fs \<Rightarrow> shell_args \<Rightarrow> (js_error \<times> fs) + shell_outcome" where
  "handleShellTool w s args =
     (case permission_check (process_cwd w) s (command args) (cwd args) of
        (Deny, s') \<Rightarrow>
          Inr \<lparr>response = \<lparr>text_of = denial_text (command args), isError = True\<rparr>,
               fs_after = s', executed = None, artifact = None\<rparr>
      | (Allow, s') \<Rightarrow>
          (case executeCommand (run w) of
             Inl e \<Rightarrow> Inl (e, s')
           | Inr result \<Rightarrow>
               (let out = fullOutput result
                in if shouldCompress (compress args) (command args) (lineCount out)
                   then Inr \<lparr>response =
                             \<lparr>text_of = finalOutput_compressed result (logFile w)
                                          (compressWithHaiku (oracle_result w)),
                              isError = (exitCode result \<noteq> 0)\<rparr>,
                           fs_after = s', executed = Some result, artifact = Some (logFile w, out)\<rparr>
                   else Inr \<lparr>response = \<lparr>text_of = out, isError = (exitCode result \<noteq> 0)\<rparr>,
                           fs_after = s', executed = Some result, artifact = None\<rparr>)))"

section \<open>The lists the stores hold\<close>

fun is_JStr :: "json \<Rightarrow> bool" where
  "is_JStr (JStr _) = True"
| "is_JStr _ = False"

text \<open>
  The list of one-time records a store file stands for: the empty list for a file that is
  absent or does not parse, the array under \<open>commands\<close> of an object (the empty list if
  that member is missing or falsy). Any other content holds no list.
\<close>

definition once_commands :: "store_file \<Rightarrow> json list option" where
  "once_commands f =
     (case f of
        Absent \<Rightarrow> Some []
      | Unparseable \<Rightarrow> Some []
      | Parsed (JObj kvs) \<Rightarrow>
          (case or_empty (map_of kvs ''commands'') of JArr xs \<Rightarrow> Some xs | _ \<Rightarrow> None)
      | Parsed _ \<Rightarrow> None)"

text \<open>The list of durable rules a settings file stands for, likewise under \<open>permissions.allow\<close>.\<close>

definition durable_rules :: "store_file \<Rightarrow> json list option" where
  "durable_rules f =
     (case f of
        Absent \<Rightarrow> Some []
      | Unparseable \<Rightarrow> Some []
      | Parsed (JObj kvs) \<Rightarrow>
          (if \<not> truthy (map_of kvs ''permissions'') then Some []
           else (case map_of kvs ''permissions'' of
                   Some (JObj pkvs) \<Rightarrow>
                     (case or_empty (map_of pkvs ''allow'') of JArr xs \<Rightarrow> Some xs | _ \<Rightarrow> None)
                 | _ \<Rightarrow> None))
      | Parsed _ \<Rightarrow> None)"

text \<open>The state in which nothing has been granted.\<close>

definition empty_fs :: fs where
  "empty_fs = \<lparr>once_file = Absent, settings_file = (\<lambda>_. Absent)\<rparr>"

section \<open>Example inputs\<close>

definition w0 :: world where
  "w0 = \<lparr>process_cwd = ''/srv/app'',
         run = \<lparr>out_data = ''hello'', err_data = [], event = Close (Some 0), elapsed = ''0.01''\<rparr>,
         logFile = ''/tmp/compressed-shell-logs/t.log'',
         oracle_result = CliFailure ''spawnSync /bin/sh ETIMEDOUT''\<rparr>"

definition fs_ls :: fs where
  "fs_ls = empty_fs\<lparr>once_file := Parsed (JObj [(''commands'', JArr [JStr ''ls''])])\<rparr>"

definition w_short :: world where
  "w_short = w0\<lparr>oracle_result := CliOutput ''ok''\<rparr>"

definition w_signal :: world where
  "w_signal = w0\<lparr>run := \<lparr>out_data = ''partial'', err_data = [], event = Close None, elapsed = ''2.50''\<rparr>\<rparr>"

definition w_enoent :: world where
  "w_enoent = w0\<lparr>run := \<lparr>out_data = [], err_data = [], event = SpawnError ''spawn bash ENOENT'', elapsed = ''0.00''\<rparr>\<rparr>"

definition w_long :: world where
  "w_long = w0\<lparr>run := \<lparr>out_data = replicate 29 (CHR 0x0A), err_data = [], event = Close (Some 0), elapsed = ''3.20''\<rparr>\<rparr>"

definition args_npm :: shell_args where
  "args_npm = \<lparr>command = ''cd app && npm --version'', cwd = None, compress = None\<rparr>"

definition args_forced :: shell_args where
  "args_forced = \<lparr>command = ''ls'', cwd = None, compress = Some True\<rparr>"

definition w_long_ok :: world where
  "w_long_ok = w_long\<lparr>oracle_result := CliOutput ''SUCCESS: 2 packages installed''\<rparr>"

definition w_throw :: world where
  "w_throw = w0\<lparr>run := \<lparr>out_data = [], err_data = [],
       event = SpawnThrows ''The argument args[1] must be a string without null bytes'',
       elapsed = ''0.00''\<rparr>\<rparr>"

definition args_nul :: shell_args where
  "args_nul = \<lparr>command = ''ls '' @ [CHR 0x00], cwd = None, compress = None\<rparr>"

definition fs_untrimmed :: fs where
  "fs_untrimmed = empty_fs\<lparr>once_file := Parsed (JObj [(''commands'', JArr [JStr ''echo hi''])])\<rparr>"

definition once_mixed :: store_file where
  "once_mixed = Parsed (JObj [(''commands'', JArr [JNum 1, JStr ''echo hello''])])"

definition settings_mixed :: store_file where
  "settings_mixed =
     Parsed (JObj [(''permissions'',
       JObj [(''allow'', JArr [JStr ''mcp__compressed-shell__shell(command:npm install *)'', JNum 1])])])"

definition settings_number :: store_file where
  "settings_number = Parsed (JObj [(''permissions'', JObj [(''allow'', JNum 5)])])"

text \<open>A word as \<open>split(/\s+/)\<close> leaves it inside a trimmed string: not empty, no white space
  at either end.\<close>

definition tok_ok :: "string \<Rightarrow> bool" where
  "tok_ok w \<longleftrightarrow> w \<noteq> [] \<and> \<not> is_space (hd w) \<and> \<not> is_space (last w)"

section \<open>Trimming and words\<close>

lemma last_dropWhile_nonempty:
  "dropWhile P xs \<noteq> [] \<Longrightarrow> last (dropWhile P xs) = last xs"
proof -
  assume h: "dropWhile P xs \<noteq> []"
  have "last (takeWhile P xs @ dropWhile P xs) = last (dropWhile P xs)"
    using h by (rule last_appendR)
  then show ?thesis by simp
qed

lemma trim_id:
  assumes "s \<noteq> []" "\<not> is_space (hd s)" "\<not> is_space (last s)"
  shows "trim s = s"
proof -
  from assms obtain x xs where s: "s = x # xs" by (cases s) auto
  with assms have a: "dropWhile is_space s = s" by simp
  have b: "dropWhile is_space (rev s) = rev s"
  proof (cases "rev s")
    case Nil
    then show ?thesis by (simp only: dropWhile.simps)
  next
    case (Cons y ys)
    have "hd (rev s) = last s" using assms(1) by (simp add: hd_rev)
    with Cons assms(3) have "\<not> is_space y" by (simp del: rev_is_Nil_conv)
    then have "dropWhile is_space (y # ys) = y # ys" by simp
    then show ?thesis by (simp only: Cons)
  qed
  show ?thesis by (simp only: trim_def a b rev_rev_ident)
qed

lemma trim_ends:
  assumes "trim s \<noteq> []"
  shows "\<not> is_space (hd (trim s)) \<and> \<not> is_space (last (trim s))"
proof -
  let ?a = "dropWhile is_space s"
  let ?b = "dropWhile is_space (rev ?a)"
  have t: "trim s = rev ?b" by (simp add: trim_def)
  with assms have b: "?b \<noteq> []" by simp
  then have hb: "\<not> is_space (hd ?b)" by (rule hd_dropWhile)
  have a: "?a \<noteq> []"
  proof
    assume e: "?a = []"
    have "?b = []" by (subst e) simp
    with b show False by simp
  qed
  then have ha: "\<not> is_space (hd ?a)" by (rule hd_dropWhile)
  have "last ?b = last (rev ?a)" using b by (rule last_dropWhile_nonempty)
  also have "\<dots> = hd ?a" using a by (simp add: last_rev)
  finally have "hd (rev ?b) = hd ?a" using b by (simp add: hd_rev)
  moreover have "last (rev ?b) = hd ?b" using b by (simp add: last_rev)
  ultimately show ?thesis using t ha hb by simp
qed

lemma split_ws_tokens:
  "s \<noteq> [] \<Longrightarrow> \<not> is_space (hd s) \<Longrightarrow> \<not> is_space (last s) \<Longrightarrow> list_all tok_ok (split_ws s)"
proof (induction s rule: split_ws.induct)
  case (1 s)
  show ?case
  proof (cases "dropWhile (\<lambda>c. \<not> is_space c) s")
    case Nil
    have "split_ws s = [s]" by (subst split_ws.simps, subst Nil, simp)
    with "1.prems" show ?thesis by (simp add: tok_ok_def)
  next
    case (Cons c r)
    let ?t = "takeWhile (\<lambda>c. \<not> is_space c) s"
    let ?s' = "dropWhile is_space r"
    have sw: "split_ws s = ?t # split_ws ?s'"
      using Cons by (subst split_ws.simps) simp
    have sd: "s = ?t @ c # r" using Cons takeWhile_dropWhile_id [of "\<lambda>c. \<not> is_space c" s] by simp
    have c: "is_space c"
      using hd_dropWhile [of "\<lambda>c. \<not> is_space c" s] Cons by simp
    from "1.prems" obtain x xs where sx: "s = x # xs" by (cases s) auto
    with "1.prems" have tne: "?t \<noteq> []" by simp
    have thd: "hd ?t = hd s" using sx "1.prems" by simp
    have "\<forall>x\<in>set ?t. \<not> is_space x" by (auto dest: set_takeWhileD)
    with tne have tl: "\<not> is_space (last ?t)" using last_in_set by blast
    have t: "tok_ok ?t" using tne thd tl "1.prems" by (simp add: tok_ok_def)
    have ls: "last s = last (c # r)" by (subst sd) simp
    with "1.prems" c have rne: "r \<noteq> []" by auto
    with ls have lr: "last s = last r" by simp
    have s'ne: "?s' \<noteq> []"
    proof
      assume "?s' = []"
      then have "\<forall>x\<in>set r. is_space x" by (simp add: dropWhile_eq_Nil_conv)
      with rne have "is_space (last r)" using last_in_set by blast
      with lr "1.prems" show False by simp
    qed
    then have h1: "\<not> is_space (hd ?s')" by (rule hd_dropWhile)
    have h2: "\<not> is_space (last ?s')"
      using last_dropWhile_nonempty [OF s'ne] lr "1.prems" by simp
    have "list_all tok_ok (split_ws ?s')"
      using "1.IH" [OF Cons s'ne h1 h2] .
    with t sw show ?thesis by simp
  qed
qed

lemma trim_getCommandPrefix: "trim (getCommandPrefix c) = getCommandPrefix c"
proof (cases "trim c = []")
  case True
  have "split_ws [] = [[]]" by (subst split_ws.simps) simp
  with True have "getCommandPrefix c = []" by (simp add: getCommandPrefix_def words_of_def)
  then show ?thesis by (simp add: trim_def)
next
  case False
  then have all: "list_all tok_ok (words_of c)"
    unfolding words_of_def using trim_ends [OF False] by (intro split_ws_tokens) auto
  show ?thesis
  proof (cases "words_of c")
    case Nil
    then show ?thesis by (simp add: getCommandPrefix_def trim_def)
  next
    case (Cons w0 ws)
    note c1 = Cons
    show ?thesis
    proof (cases ws)
      case Nil
      with c1 all have "getCommandPrefix c = w0" "tok_ok w0" by (simp_all add: getCommandPrefix_def)
      then show ?thesis by (simp add: tok_ok_def trim_id)
    next
      case (Cons w1 ws')
      with c1 all have g: "getCommandPrefix c = w0 @ '' '' @ w1" and w: "tok_ok w0" "tok_ok w1"
        by (simp_all add: getCommandPrefix_def)
      from w have "w0 @ '' '' @ w1 \<noteq> []" "hd (w0 @ '' '' @ w1) = hd w0" "last (w0 @ '' '' @ w1) = last w1"
        by (simp_all add: tok_ok_def)
      with w g show ?thesis by (simp add: tok_ok_def trim_id)
    qed
  qed
qed

section \<open>The one-time store\<close>

lemma isAllowedOnce_miss_unchanged: "isAllowedOnce c f = (False, g) \<Longrightarrow> g = f"
  by (auto simp: isAllowedOnce_def isAllowedOnce_try_def
      split: if_splits store_file.splits sum.splits json.splits)

lemma or_empty_JArr: "or_empty v = JArr xs \<Longrightarrow> xs \<noteq> [] \<Longrightarrow> v = Some (JArr xs)"
  by (cases v) (auto split: if_splits)

lemma isAllowedOnce_hit_shape:
  assumes "fst (isAllowedOnce c f)"
  shows "\<exists>kvs xs. f = Parsed (JObj kvs) \<and> map_of kvs ''commands'' = Some (JArr xs) \<and> JStr c \<in> set xs"
proof -
  from assms obtain j where f: "f = Parsed j"
    by (cases f) (auto simp: isAllowedOnce_def isAllowedOnce_try_def)
  from assms f obtain kvs where j: "j = JObj kvs"
    by (cases j) (auto simp: isAllowedOnce_def isAllowedOnce_try_def)
  from assms f j obtain xs where o: "or_empty (map_of kvs ''commands'') = JArr xs" and m: "JStr c \<in> set xs"
    by (auto simp: isAllowedOnce_def isAllowedOnce_try_def split: json.splits if_splits)
  from m have "xs \<noteq> []" by auto
  with o have "map_of kvs ''commands'' = Some (JArr xs)" by (rule or_empty_JArr)
  with f j m show ?thesis by simp
qed

lemma isAllowedOnce_list:
  assumes "once_commands f = Some xs"
  shows "isAllowedOnce c f =
     (if JStr c \<in> set xs then (True, Parsed (JObj [(''commands'', JArr (remove1 (JStr c) xs))]))
      else (False, f))"
proof (cases f)
  case Absent
  with assms show ?thesis by (simp add: once_commands_def isAllowedOnce_def)
next
  case Unparseable
  with assms show ?thesis by (simp add: once_commands_def isAllowedOnce_def isAllowedOnce_try_def)
next
  case (Parsed j)
  with assms obtain kvs where j: "j = JObj kvs" and o: "or_empty (map_of kvs ''commands'') = JArr xs"
    by (auto simp: once_commands_def split: json.splits)
  with Parsed show ?thesis by (simp add: isAllowedOnce_def isAllowedOnce_try_def)
qed

lemma addAllowOnce_list:
  assumes "once_commands f = Some xs"
  shows "(JStr c \<in> set xs \<longrightarrow> addAllowOnce c f = Inr f)
       \<and> (JStr c \<notin> set xs \<longrightarrow>
            (\<exists>f'. addAllowOnce c f = Inr f' \<and> once_commands f' = Some (xs @ [JStr c])))"
proof (cases f)
  case Absent
  with assms show ?thesis by (auto simp: once_commands_def addAllowOnce_def)
next
  case Unparseable
  with assms show ?thesis by (auto simp: once_commands_def addAllowOnce_def)
next
  case (Parsed j)
  with assms obtain kvs where j: "j = JObj kvs" and o: "or_empty (map_of kvs ''commands'') = JArr xs"
    by (auto simp: once_commands_def split: json.splits)
  with Parsed show ?thesis by (simp add: addAllowOnce_def once_commands_def update_conv')
qed

lemma once_commands_written: "once_commands (Parsed (JObj [(''commands'', JArr xs)])) = Some xs"
  by (simp add: once_commands_def)

lemma once_commands_None_miss:
  "once_commands f = None \<Longrightarrow> isAllowedOnce c f = (False, f)"
proof -
  assume n: "once_commands f = None"
  have "\<not> fst (isAllowedOnce c f)"
  proof
    assume "fst (isAllowedOnce c f)"
    then obtain kvs xs where "f = Parsed (JObj kvs)" "map_of kvs ''commands'' = Some (JArr xs)"
      using isAllowedOnce_hit_shape by blast
    with n show False by (simp add: once_commands_def)
  qed
  then have "isAllowedOnce c f = (False, snd (isAllowedOnce c f))" by (metis prod.collapse)
  then show ?thesis using isAllowedOnce_miss_unchanged by metis
qed

section \<open>The durable rule store\<close>

lemma rules_loop_strings:
  "list_all is_JStr xs \<Longrightarrow> rules_loop c xs = Inr (\<exists>r. JStr r \<in> set xs \<and> rule_allows c r)"
proof (induction xs)
  case Nil
  then show ?case by simp
next
  case (Cons x xs)
  from Cons.prems obtain r where x: "x = JStr r" by (cases x) auto
  with Cons show ?case by auto
qed

lemma rules_loop_True:
  "rules_loop c xs = Inr True \<Longrightarrow> \<exists>r. JStr r \<in> set xs \<and> rule_allows c r"
proof (induction xs)
  case Nil
  then show ?case by simp
next
  case (Cons x xs)
  then show ?case by (cases x) (auto split: if_splits)
qed

lemma shell_rule_length: "37 < length (shell_rule x)"
  by (simp add: shell_rule_def)

lemma rule_allows_char: "\<not> rule_allows c [ch]"
proof -
  have "[ch] \<noteq> shell_rule x" for x
  proof
    assume "[ch] = shell_rule x"
    then have "length [ch] = length (shell_rule x)" by (rule arg_cong)
    with shell_rule_length [of x] show False by simp
  qed
  moreover have "bashMatch [ch] = None" by (simp add: bashMatch_def)
  ultimately show ?thesis by (simp add: rule_allows_def)
qed

lemma rules_loop_chars: "rules_loop c (map (\<lambda>ch. JStr [ch]) s) = Inr False"
  by (induction s) (simp_all add: rule_allows_char)

lemma isCommandAllowed_file_list:
  assumes "durable_rules f = Some xs" and "list_all is_JStr xs"
  shows "isCommandAllowed_file c f \<longleftrightarrow> (\<exists>r. JStr r \<in> set xs \<and> rule_allows c r)"
proof (cases f)
  case Absent
  with assms show ?thesis by (simp add: durable_rules_def isCommandAllowed_file_def)
next
  case Unparseable
  with assms show ?thesis
    by (simp add: durable_rules_def isCommandAllowed_file_def isCommandAllowed_try_def)
next
  case (Parsed j)
  with assms obtain kvs where j: "j = JObj kvs"
    by (auto simp: durable_rules_def split: json.splits)
  show ?thesis
  proof (cases "truthy (map_of kvs ''permissions'')")
    case False
    with assms Parsed j have xs: "xs = []" by (simp add: durable_rules_def)
    from False have "opt_prop (map_of kvs ''permissions'') ''allow'' = None"
      by (cases "map_of kvs ''permissions''" rule: truthy.cases) simp_all
    with Parsed j xs show ?thesis
      by (simp add: isCommandAllowed_file_def isCommandAllowed_try_def)
  next
    case True
    with assms Parsed j obtain pkvs where p: "map_of kvs ''permissions'' = Some (JObj pkvs)"
      and o: "or_empty (map_of pkvs ''allow'') = JArr xs"
      by (auto simp: durable_rules_def split: option.splits json.splits)
    with Parsed j assms(2) show ?thesis
      by (simp add: isCommandAllowed_file_def isCommandAllowed_try_def rules_loop_strings)
  qed
qed

lemma addToProjectSettings_file_list:
  assumes "durable_rules f = Some xs"
  shows "(JStr (shell_rule (p @ '' *'')) \<in> set xs \<longrightarrow>
            addToProjectSettings_file p f = Inr (AlreadyExists (shell_rule (p @ '' *'')), f))
       \<and> (JStr (shell_rule (p @ '' *'')) \<notin> set xs \<longrightarrow>
            (\<exists>f'. addToProjectSettings_file p f = Inr (Added (shell_rule (p @ '' *'')), f')
                \<and> durable_rules f' = Some (xs @ [JStr (shell_rule (p @ '' *''))])))"
proof (cases f)
  case Absent
  with assms show ?thesis by (auto simp: durable_rules_def addToProjectSettings_file_def Let_def)
next
  case Unparseable
  with assms show ?thesis by (auto simp: durable_rules_def addToProjectSettings_file_def Let_def)
next
  case (Parsed j)
  with assms obtain kvs where j: "j = JObj kvs"
    by (auto simp: durable_rules_def split: json.splits)
  show ?thesis
  proof (cases "truthy (map_of kvs ''permissions'')")
    case False
    with assms Parsed j have xs: "xs = []" by (simp add: durable_rules_def)
    with False Parsed j show ?thesis
      by (simp add: addToProjectSettings_file_def Let_def durable_rules_def update_conv')
  next
    case True
    with assms Parsed j obtain pkvs where p: "map_of kvs ''permissions'' = Some (JObj pkvs)"
      and o: "or_empty (map_of pkvs ''allow'') = JArr xs"
      by (auto simp: durable_rules_def split: option.splits json.splits)
    with Parsed j True show ?thesis
      by (simp add: addToProjectSettings_file_def Let_def durable_rules_def update_conv')
  qed
qed

lemma isCommandAllowed_file_shape:
  assumes "isCommandAllowed_file c f"
  shows "\<exists>xs r. durable_rules f = Some xs \<and> JStr r \<in> set xs \<and> rule_allows c r"
proof -
  from assms obtain j where f: "f = Parsed j"
    by (cases f) (auto simp: isCommandAllowed_file_def isCommandAllowed_try_def)
  let ?a = "opt_prop (opt_prop (Some j) ''permissions'') ''allow''"
  from assms f have t: "(case or_empty ?a of
             JArr rules \<Rightarrow> rules_loop c rules
           | JStr s \<Rightarrow> rules_loop c (map (\<lambda>c. JStr [c]) s)
           | _ \<Rightarrow> Inl TypeError) = Inr True"
    by (auto simp: isCommandAllowed_file_def isCommandAllowed_try_def split: sum.splits)
  then obtain xs where o: "or_empty ?a = JArr xs" and l: "rules_loop c xs = Inr True"
    by (cases "or_empty ?a") (simp_all add: rules_loop_chars)
  from l obtain r where r: "JStr r \<in> set xs" "rule_allows c r"
    using rules_loop_True by blast
  then have "xs \<noteq> []" by auto
  with o have a: "?a = Some (JArr xs)" by (rule or_empty_JArr)
  then obtain pkvs where p: "opt_prop (Some j) ''permissions'' = Some (JObj pkvs)"
    and m: "map_of pkvs ''allow'' = Some (JArr xs)"
    by (cases "(opt_prop (Some j) ''permissions'', ''allow'')" rule: opt_prop.cases) auto
  then obtain kvs where j: "j = JObj kvs" and k: "map_of kvs ''permissions'' = Some (JObj pkvs)"
    by (cases "(Some j, ''permissions'')" rule: opt_prop.cases) auto
  from f j k m have "durable_rules f = Some xs" by (simp add: durable_rules_def)
  with r show ?thesis by blast
qed

lemma count_list_distinct: "distinct xs \<Longrightarrow> x \<in> set xs \<Longrightarrow> count_list xs x = 1"
  by (induction xs) auto

lemma grant_durable_step:
  assumes "trim P \<noteq> []" and "durable_rules (settings_file s (projectDir pcwd dir)) = Some xs"
  defines "rule \<equiv> shell_rule (trim P @ '' *'')"
  defines "ys \<equiv> (if JStr rule \<in> set xs then xs else xs @ [JStr rule])"
  shows "\<exists>r f'. handleAllowCommandTool pcwd s P dir
              = Inr (r, s\<lparr>settings_file := (settings_file s)(projectDir pcwd dir := f')\<rparr>)
          \<and> \<not> isError r
          \<and> (JStr rule \<in> set xs \<longrightarrow> f' = settings_file s (projectDir pcwd dir)
                \<and> text_of r = ''Permission already exists: '' @ rule)
          \<and> durable_rules f' = Some ys"
proof -
  let ?d = "projectDir pcwd dir"
  from assms(1) have ne: "P \<noteq> []" by (auto simp: trim_def)
  show ?thesis
  proof (cases "JStr rule \<in> set xs")
    case True
    then have "addToProjectSettings_file (trim P) (settings_file s ?d)
                 = Inr (AlreadyExists rule, settings_file s ?d)"
      using addToProjectSettings_file_list [OF assms(2), of "trim P"] by (simp add: rule_def)
    with True assms(1,2) ne show ?thesis
      by (simp add: handleAllowCommandTool_def addToProjectSettings_def Let_def ys_def)
  next
    case False
    then obtain f' where "addToProjectSettings_file (trim P) (settings_file s ?d) = Inr (Added rule, f')"
      and "durable_rules f' = Some (xs @ [JStr rule])"
      using addToProjectSettings_file_list [OF assms(2), of "trim P"] by (auto simp: rule_def)
    with False assms(1) ne show ?thesis
      by (auto simp: handleAllowCommandTool_def addToProjectSettings_def Let_def ys_def
          intro!: exI [of _ f'])
  qed
qed

section \<open>The permission check\<close>

lemma permission_check_eq:
  "permission_check pcwd s cmd dir =
     (if \<not> isSafeCommand cmd \<and> \<not> fst (isAllowedOnce cmd (once_file s))
          \<and> \<not> isCommandAllowed_file cmd (settings_file s (projectDir pcwd dir))
      then Deny else Allow,
      s\<lparr>once_file := snd (isAllowedOnce cmd (once_file s))\<rparr>)"
  by (simp add: permission_check_def isCommandAllowed_def split: prod.splits)

text \<open>
  C1, as the code has it: a command that matches the safe catalog is allowed whatever the
  two stores hold, and the durable rule store is left as it was. The one-time lookup is run
  for it all the same. If the one-time store holds a record equal to the command, that
  record is consumed: the store is rewritten as the list without the first such record. If
  it holds no such record, or no list at all, nothing is changed.
\<close>

theorem safe_command_allowed:
  assumes "isSafeCommand cmd"
  shows "fst (permission_check pcwd s cmd dir) = Allow
       \<and> settings_file (snd (permission_check pcwd s cmd dir)) = settings_file s
       \<and> (\<forall>xs. once_commands (once_file s) = Some xs \<and> JStr cmd \<in> set xs \<longrightarrow>
            once_file (snd (permission_check pcwd s cmd dir))
              = Parsed (JObj [(''commands'', JArr (remove1 (JStr cmd) xs))]))
       \<and> ((\<forall>xs. once_commands (once_file s) = Some xs \<longrightarrow> JStr cmd \<notin> set xs) \<longrightarrow>
            snd (permission_check pcwd s cmd dir) = s)"
proof -
  have hit: "once_file (snd (permission_check pcwd s cmd dir))
               = Parsed (JObj [(''commands'', JArr (remove1 (JStr cmd) xs))])"
    if "once_commands (once_file s) = Some xs" and "JStr cmd \<in> set xs" for xs
    using isAllowedOnce_list [OF that(1), of cmd] that(2) by (simp add: permission_check_eq)
  have miss: "snd (permission_check pcwd s cmd dir) = s"
    if n: "\<forall>xs. once_commands (once_file s) = Some xs \<longrightarrow> JStr cmd \<notin> set xs"
  proof (cases "once_commands (once_file s)")
    case None
    then have "isAllowedOnce cmd (once_file s) = (False, once_file s)"
      by (rule once_commands_None_miss)
    then show ?thesis by (simp add: permission_check_eq)
  next
    case (Some xs)
    with n have "JStr cmd \<notin> set xs" by simp
    with isAllowedOnce_list [OF Some, of cmd] show ?thesis by (simp add: permission_check_eq)
  qed
  from assms hit miss show ?thesis by (simp add: permission_check_eq)
qed

theorem safe_command_allowed_witness:
  "isSafeCommand ''ls''
   \<and> once_commands (once_file fs_ls) = Some [JStr ''ls''] \<and> JStr ''ls'' \<in> set [JStr ''ls'']
   \<and> fst (permission_check ''/srv/app'' fs_ls ''ls'' None) = Allow
   \<and> settings_file (snd (permission_check ''/srv/app'' fs_ls ''ls'' None)) = settings_file fs_ls
   \<and> once_file (snd (permission_check ''/srv/app'' fs_ls ''ls'' None))
       = Parsed (JObj [(''commands'', JArr [])])
   \<and> isSafeCommand ''git status --short''
   \<and> permission_check ''/srv/app'' empty_fs ''git status --short'' None = (Allow, empty_fs)"
proof -
  have h: "isSafeCommand ''ls''" by code_simp
  have o: "once_commands (once_file fs_ls) = Some [JStr ''ls'']" by code_simp
  have g: "isSafeCommand ''git status --short''" by code_simp
  have e: "once_commands (once_file empty_fs) = Some []" by code_simp
  show ?thesis
    using h o g e safe_command_allowed [OF h, of "''/srv/app''" fs_ls None]
      safe_command_allowed [OF g, of "''/srv/app''" empty_fs None]
    by (simp add: prod_eq_iff)
qed

text \<open>
  C1 as stated fails: after a one-time grant of the safe command \<open>ls\<close>, resolving \<open>ls\<close> is
  allowed and removes the record from the one-time store.
\<close>

theorem safe_command_consumes_once_counterexample:
  "isSafeCommand ''ls''
   \<and> map_sum id snd (handleAllowOnceTool empty_fs ''ls'') = Inr fs_ls
   \<and> fst (permission_check ''/srv/app'' fs_ls ''ls'' None) = Allow
   \<and> once_file fs_ls = Parsed (JObj [(''commands'', JArr [JStr ''ls''])])
   \<and> once_file (snd (permission_check ''/srv/app'' fs_ls ''ls'' None)) = Parsed (JObj [(''commands'', JArr [])])"
proof -
  have t: "trim ''ls'' = ''ls''" by code_simp
  have "map_sum id snd (handleAllowOnceTool empty_fs ''ls'') = Inr fs_ls"
    by (simp add: handleAllowOnceTool_def t addAllowOnce_def empty_fs_def fs_ls_def)
  moreover have "isSafeCommand ''ls''" by code_simp
  moreover have "fst (permission_check ''/srv/app'' fs_ls ''ls'' None) = Allow" by code_simp
  moreover have "once_file fs_ls = Parsed (JObj [(''commands'', JArr [JStr ''ls''])])" by code_simp
  moreover have "once_file (snd (permission_check ''/srv/app'' fs_ls ''ls'' None)) = Parsed (JObj [(''commands'', JArr [])])"
    by code_simp
  ultimately show ?thesis by blast
qed

text \<open>
  C9: a request that is denied leaves the one-time store and the durable rule store as they
  were: the one-time store is written only when a record matched, which gives allow, and
  the durable store is only read. Nothing is executed and the response carries the error
  flag.
\<close>

theorem denial_leaves_stores_unchanged:
  assumes "fst (permission_check (process_cwd w) s (command args) (cwd args)) = Deny"
  shows "snd (permission_check (process_cwd w) s (command args) (cwd args)) = s
       \<and> handleShellTool w s args =
           Inr \<lparr>response = \<lparr>text_of = denial_text (command args), isError = True\<rparr>,
                fs_after = s, executed = None, artifact = None\<rparr>"
proof -
  let ?r = "isAllowedOnce (command args) (once_file s)"
  from assms have "fst ?r = False"
    by (simp add: permission_check_eq split: if_splits)
  then have "?r = (False, snd ?r)" by (metis prod.collapse)
  then have "snd ?r = once_file s" by (rule isAllowedOnce_miss_unchanged)
  then have u: "snd (permission_check (process_cwd w) s (command args) (cwd args)) = s"
    by (simp add: permission_check_eq)
  with assms have "permission_check (process_cwd w) s (command args) (cwd args) = (Deny, s)"
    by (metis prod.collapse)
  then show ?thesis by (simp add: handleShellTool_def)
qed

theorem denial_leaves_stores_unchanged_witness:
  "fst (permission_check (process_cwd w0) empty_fs ''echo hello'' None) = Deny
   \<and> handleShellTool w0 empty_fs \<lparr>command = ''echo hello'', cwd = None, compress = None\<rparr> =
       Inr \<lparr>response = \<lparr>text_of = denial_text ''echo hello'', isError = True\<rparr>,
            fs_after = empty_fs, executed = None, artifact = None\<rparr>"
proof -
  have h: "fst (permission_check (process_cwd w0) empty_fs ''echo hello'' None) = Deny"
    by code_simp
  show ?thesis
    using h denial_leaves_stores_unchanged [of w0 empty_fs "\<lparr>command = ''echo hello'', cwd = None, compress = None\<rparr>"]
    by simp
qed

section \<open>Granting and resolving\<close>

text \<open>
  For a command that is not empty and has no white space at either end, the one-time grant
  and the lookup agree: if the command matches neither the safe catalog nor a durable rule
  and the one-time store holds a list without duplicates, the grant succeeds, the next
  resolution is allowed and leaves exactly the records other than the command in the
  one-time store, and the resolution after that is denied.
\<close>

lemma one_time_consumption_trimmed:
  assumes "C \<noteq> []" and "trim C = C"
    and "\<not> isSafeCommand C" and "\<not> isCommandAllowed pcwd s C dir"
    and "once_commands (once_file s) = Some xs" and "distinct xs"
  shows "\<exists>r s1 s2. handleAllowOnceTool s C = Inr (r, s1) \<and> \<not> isError r
           \<and> settings_file s1 = settings_file s
           \<and> permission_check pcwd s1 C dir = (Allow, s2)
           \<and> settings_file s2 = settings_file s
           \<and> once_commands (once_file s2) = Some (removeAll (JStr C) xs)
           \<and> permission_check pcwd s2 C dir = (Deny, s2)"
proof -
  let ?xs1 = "if JStr C \<in> set xs then xs else xs @ [JStr C]"
  obtain f1 where a: "addAllowOnce C (once_file s) = Inr f1" and l1: "once_commands f1 = Some ?xs1"
    using addAllowOnce_list [OF assms(5), of C] assms(5) by (cases "JStr C \<in> set xs") auto
  define s1 where "s1 = s\<lparr>once_file := f1\<rparr>"
  define ys where "ys = remove1 (JStr C) ?xs1"
  define s2 where "s2 = s\<lparr>once_file := Parsed (JObj [(''commands'', JArr ys)])\<rparr>"
  have d1: "distinct ?xs1" using assms(6) by simp
  have m1: "JStr C \<in> set ?xs1" by simp
  have ys: "ys = removeAll (JStr C) xs"
    unfolding ys_def using assms(6) by (simp add: distinct_remove1_removeAll)
  have n: "JStr C \<notin> set ys" by (simp add: ys)
  have g: "\<exists>r. handleAllowOnceTool s C = Inr (r, s1) \<and> \<not> isError r"
    using assms(1,2) a by (simp add: handleAllowOnceTool_def s1_def)
  have dur: "\<not> isCommandAllowed_file C (settings_file s (projectDir pcwd dir))"
    using assms(4) by (simp add: isCommandAllowed_def)
  have p1: "permission_check pcwd s1 C dir = (Allow, s2)"
    using isAllowedOnce_list [OF l1, of C] m1
    by (simp add: permission_check_eq s1_def s2_def ys_def)
  have l2: "once_commands (once_file s2) = Some ys"
    by (simp add: s2_def once_commands_written)
  have p2: "permission_check pcwd s2 C dir = (Deny, s2)"
    using isAllowedOnce_list [OF l2, of C] n assms(3) dur
    by (simp add: permission_check_eq s2_def)
  have f: "settings_file s1 = settings_file s" "settings_file s2 = settings_file s"
    by (simp_all add: s1_def s2_def)
  from g p1 l2 p2 f show ?thesis unfolding ys by blast
qed

lemma one_time_consumption_trimmed_example:
  "\<exists>r s1 s2. handleAllowOnceTool empty_fs ''echo hello'' = Inr (r, s1) \<and> \<not> isError r
           \<and> permission_check ''/srv/app'' s1 ''echo hello'' None = (Allow, s2)
           \<and> once_commands (once_file s2) = Some []
           \<and> permission_check ''/srv/app'' s2 ''echo hello'' None = (Deny, s2)"
proof -
  have t: "trim ''echo hello'' = ''echo hello''" by code_simp
  have ns: "\<not> isSafeCommand ''echo hello''" by code_simp
  have nd: "\<not> isCommandAllowed ''/srv/app'' empty_fs ''echo hello'' None" by code_simp
  have o: "once_commands (once_file empty_fs) = Some []" by code_simp
  have ne: "''echo hello'' \<noteq> []" by simp
  have d: "distinct ([] :: json list)" by simp
  show ?thesis
    using one_time_consumption_trimmed [OF ne t ns nd o d] by simp blast
qed

text \<open>
  C4 fails on the code for a command with white space at an end: \<open>handleAllowOnceTool\<close>
  stores the trimmed command, \<open>isAllowedOnce\<close> compares the command as it came, and the
  resolution right after the grant is denied, although the text of the denial asks for
  this very grant of the command as it came.
\<close>

theorem grant_once_untrimmed_denied:
  "\<not> isSafeCommand ''echo hi '' \<and> \<not> isCommandAllowed ''/srv/app'' empty_fs ''echo hi '' None
   \<and> sublist (''allow_once(command: '' @ quoted ''echo hi '' @ '')'') (denial_text ''echo hi '')
   \<and> map_sum id snd (handleAllowOnceTool empty_fs ''echo hi '') = Inr fs_untrimmed
   \<and> once_file fs_untrimmed = Parsed (JObj [(''commands'', JArr [JStr ''echo hi''])])
   \<and> permission_check ''/srv/app'' fs_untrimmed ''echo hi '' None = (Deny, fs_untrimmed)"
proof -
  have t: "trim ''echo hi '' = ''echo hi''" by code_simp
  have "map_sum id snd (handleAllowOnceTool empty_fs ''echo hi '') = Inr fs_untrimmed"
    by (simp add: handleAllowOnceTool_def t addAllowOnce_def empty_fs_def fs_untrimmed_def)
  moreover have "\<not> isSafeCommand ''echo hi ''" by code_simp
  moreover have "\<not> isCommandAllowed ''/srv/app'' empty_fs ''echo hi '' None" by code_simp
  moreover have "sublist (''allow_once(command: '' @ quoted ''echo hi '' @ '')'') (denial_text ''echo hi '')"
    by code_simp
  moreover have "once_file fs_untrimmed = Parsed (JObj [(''commands'', JArr [JStr ''echo hi''])])"
    by code_simp
  moreover have d: "fst (permission_check ''/srv/app'' fs_untrimmed ''echo hi '' None) = Deny"
    by code_simp
  moreover have "snd (permission_check ''/srv/app'' fs_untrimmed ''echo hi '' None) = fs_untrimmed"
  proof -
    have "fst (isAllowedOnce ''echo hi '' (once_file fs_untrimmed)) = False"
      using d by (simp add: permission_check_eq split: if_splits)
    then have "isAllowedOnce ''echo hi '' (once_file fs_untrimmed)
                 = (False, snd (isAllowedOnce ''echo hi '' (once_file fs_untrimmed)))"
      by (metis prod.collapse)
    then have "snd (isAllowedOnce ''echo hi '' (once_file fs_untrimmed)) = once_file fs_untrimmed"
      by (rule isAllowedOnce_miss_unchanged)
    then show ?thesis by (simp add: permission_check_eq)
  qed
  ultimately show ?thesis by (simp add: prod_eq_iff)
qed

text \<open>
  C3: let \<open>P\<close> be the prefix derived from a command (its first two words, or its only word),
  not empty, and let the settings file of the project hold a list of strings. Then the
  durable grant of \<open>P\<close> succeeds, the rule it leaves in the store is the rule of the second
  form that the resolution builds for the command, and the command resolves to allow in
  that project. A command that was denied before and that the new rule does not match is
  still denied; the witness shows this for \<open>npm install\<close>, \<open>npm install lodash\<close> and
  \<open>npm remove lodash\<close>.
\<close>

theorem durable_grant_round_trip:
  assumes "P \<noteq> []" and "getCommandPrefix cmd = P"
    and "durable_rules (settings_file s (projectDir pcwd dir)) = Some xs" and "list_all is_JStr xs"
  shows "\<exists>r s1 ys. handleAllowCommandTool pcwd s P dir = Inr (r, s1) \<and> \<not> isError r
      \<and> durable_rules (settings_file s1 (projectDir pcwd dir)) = Some ys
      \<and> JStr (shell_rule (getCommandPrefix cmd @ '' *'')) \<in> set ys
      \<and> fst (permission_check pcwd s1 cmd dir) = Allow
      \<and> (\<forall>other. fst (permission_check pcwd s other dir) = Deny
             \<and> \<not> rule_allows other (shell_rule (P @ '' *''))
           \<longrightarrow> fst (permission_check pcwd s1 other dir) = Deny)"
proof -
  let ?d = "projectDir pcwd dir"
  let ?rule = "shell_rule (P @ '' *'')"
  let ?ys = "if JStr ?rule \<in> set xs then xs else xs @ [JStr ?rule]"
  have t: "trim P = P" using trim_getCommandPrefix [of cmd] assms(2) by simp
  with assms(1) have tne: "trim P \<noteq> []" by simp
  have "\<exists>r f'. handleAllowCommandTool pcwd s P dir
        = Inr (r, s\<lparr>settings_file := (settings_file s)(?d := f')\<rparr>)
      \<and> \<not> isError r \<and> durable_rules f' = Some ?ys"
    using grant_durable_step [OF tne assms(3)] unfolding t by blast
  then obtain r f' where g: "handleAllowCommandTool pcwd s P dir
        = Inr (r, s\<lparr>settings_file := (settings_file s)(?d := f')\<rparr>)"
    and e: "\<not> isError r" and l: "durable_rules f' = Some ?ys"
    by blast
  define s1 where "s1 = s\<lparr>settings_file := (settings_file s)(?d := f')\<rparr>"
  have sf: "settings_file s1 ?d = f'" and once: "once_file s1 = once_file s"
    by (simp_all add: s1_def)
  have str: "list_all is_JStr ?ys" using assms(4) by simp
  have m: "JStr ?rule \<in> set ?ys" by simp
  have ra: "rule_allows cmd ?rule" using assms(2) by (simp add: rule_allows_def)
  have al: "isCommandAllowed_file c f' \<longleftrightarrow> (\<exists>r. JStr r \<in> set ?ys \<and> rule_allows c r)" for c
    using l str by (rule isCommandAllowed_file_list)
  have al0: "isCommandAllowed_file c (settings_file s ?d) \<longleftrightarrow> (\<exists>r. JStr r \<in> set xs \<and> rule_allows c r)" for c
    using assms(3,4) by (rule isCommandAllowed_file_list)
  have "isCommandAllowed_file cmd f'" using al m ra by blast
  then have a: "fst (permission_check pcwd s1 cmd dir) = Allow"
    by (simp add: permission_check_eq sf)
  have k: "fst (permission_check pcwd s1 other dir) = Deny"
    if "fst (permission_check pcwd s other dir) = Deny" and "\<not> rule_allows other ?rule" for other
  proof -
    from that(1) have "\<not> isCommandAllowed_file other (settings_file s ?d)"
      and o: "\<not> isSafeCommand other" "\<not> fst (isAllowedOnce other (once_file s))"
      by (simp_all add: permission_check_eq split: if_splits)
    with al0 have "\<not> (\<exists>r. JStr r \<in> set xs \<and> rule_allows other r)" by simp
    with that(2) have "\<not> (\<exists>r. JStr r \<in> set ?ys \<and> rule_allows other r)"
      by (auto split: if_splits)
    with al have "\<not> isCommandAllowed_file other f'" by simp
    with o show ?thesis by (simp add: permission_check_eq sf once)
  qed
  from g e l m a k assms(2) show ?thesis
    unfolding s1_def [symmetric] using sf by blast
qed

theorem durable_grant_round_trip_witness:
  "''npm install'' \<noteq> [] \<and> getCommandPrefix ''npm install lodash'' = ''npm install''
   \<and> durable_rules (settings_file empty_fs (projectDir ''/srv/app'' None)) = Some []
   \<and> (\<exists>r s1. handleAllowCommandTool ''/srv/app'' empty_fs ''npm install'' None = Inr (r, s1)
         \<and> fst (permission_check ''/srv/app'' s1 ''npm install lodash'' None) = Allow
         \<and> fst (permission_check ''/srv/app'' s1 ''npm remove lodash'' None) = Deny)"
proof -
  have ne: "''npm install'' \<noteq> []" by simp
  have p: "getCommandPrefix ''npm install lodash'' = ''npm install''" by code_simp
  have d: "durable_rules (settings_file empty_fs (projectDir ''/srv/app'' None)) = Some []" by code_simp
  have l: "list_all is_JStr []" by simp
  have o: "fst (permission_check ''/srv/app'' empty_fs ''npm remove lodash'' None) = Deny" by code_simp
  have n: "\<not> rule_allows ''npm remove lodash'' (shell_rule (''npm install'' @ '' *''))" by code_simp
  show ?thesis
    using durable_grant_round_trip [OF ne p d l] p d o n by blast
qed

text \<open>
  C6: for a prefix that is not blank and a settings file that holds a list without
  duplicates, a second durable grant of the same prefix in the same directory answers that
  the permission already exists and leaves the stores as the first grant left them, and
  the list holds the rule of that prefix exactly once.
\<close>

theorem durable_grant_idempotent:
  assumes "trim P \<noteq> []"
    and "durable_rules (settings_file s (projectDir pcwd dir)) = Some xs" and "distinct xs"
  shows "\<exists>r1 s1 r2 ys. handleAllowCommandTool pcwd s P dir = Inr (r1, s1)
     \<and> handleAllowCommandTool pcwd s1 P dir = Inr (r2, s1)
     \<and> text_of r2 = ''Permission already exists: '' @ shell_rule (trim P @ '' *'')
     \<and> durable_rules (settings_file s1 (projectDir pcwd dir)) = Some ys
     \<and> count_list ys (JStr (shell_rule (trim P @ '' *''))) = 1"
proof -
  let ?d = "projectDir pcwd dir"
  let ?rule = "shell_rule (trim P @ '' *'')"
  let ?ys = "if JStr ?rule \<in> set xs then xs else xs @ [JStr ?rule]"
  obtain r1 f' where g1: "handleAllowCommandTool pcwd s P dir
        = Inr (r1, s\<lparr>settings_file := (settings_file s)(?d := f')\<rparr>)"
    and l: "durable_rules f' = Some ?ys"
    using grant_durable_step [OF assms(1,2)] by auto
  define s1 where "s1 = s\<lparr>settings_file := (settings_file s)(?d := f')\<rparr>"
  have sf: "settings_file s1 ?d = f'" by (simp add: s1_def)
  have l1: "durable_rules (settings_file s1 ?d) = Some ?ys" using l sf by simp
  have m: "JStr ?rule \<in> set ?ys" by simp
  obtain r2 f2 where g2: "handleAllowCommandTool pcwd s1 P dir
        = Inr (r2, s1\<lparr>settings_file := (settings_file s1)(?d := f2)\<rparr>)"
    and same: "f2 = settings_file s1 ?d" and tx: "text_of r2 = ''Permission already exists: '' @ ?rule"
    using grant_durable_step [OF assms(1) l1] m by auto
  from same have "s1\<lparr>settings_file := (settings_file s1)(?d := f2)\<rparr> = s1" by simp
  with g2 have g2': "handleAllowCommandTool pcwd s1 P dir = Inr (r2, s1)" by simp
  have "distinct ?ys" using assms(3) by simp
  with m have c: "count_list ?ys (JStr ?rule) = 1"
    by (simp only: count_list_distinct)
  from g1 g2' tx l1 c show ?thesis unfolding s1_def [symmetric] by blast
qed

theorem durable_grant_idempotent_witness:
  "trim ''npm install'' \<noteq> []
   \<and> durable_rules (settings_file empty_fs (projectDir ''/srv/app'' None)) = Some [] \<and> distinct ([] :: json list)
   \<and> (\<exists>r1 s1 r2 ys. handleAllowCommandTool ''/srv/app'' empty_fs ''npm install'' None = Inr (r1, s1)
     \<and> handleAllowCommandTool ''/srv/app'' s1 ''npm install'' None = Inr (r2, s1)
     \<and> text_of r2 = ''Permission already exists: mcp__compressed-shell__shell(command:npm install *)''
     \<and> durable_rules (settings_file s1 (projectDir ''/srv/app'' None)) = Some ys
     \<and> count_list ys (JStr ''mcp__compressed-shell__shell(command:npm install *)'') = 1)"
proof -
  have t: "trim ''npm install'' = ''npm install''" by code_simp
  then have ne: "trim ''npm install'' \<noteq> []" by simp
  have d: "durable_rules (settings_file empty_fs (projectDir ''/srv/app'' None)) = Some []" by code_simp
  have l: "distinct ([] :: json list)" by simp
  have r: "shell_rule ''npm install *'' = ''mcp__compressed-shell__shell(command:npm install *)''"
    by code_simp
  show ?thesis
    using durable_grant_idempotent [OF ne d l] ne d
    by (simp add: t r)
qed

text \<open>
  C8, as the code has it: a store file that is absent, that does not parse, or that holds no
  list at the expected place (\<open>commands\<close>, \<open>permissions.allow\<close>) is read as an empty store: the
  lookup finds no match, the one-time store is left as it was, and the lookup has no error
  outcome for any content. A match only ever comes from a string entry of the list the file
  holds.
\<close>

theorem unreadable_store_reads_as_empty:
  "(f = Absent \<or> f = Unparseable \<or> once_commands f = None \<longrightarrow> isAllowedOnce c f = (False, f))
   \<and> (g = Absent \<or> g = Unparseable \<or> durable_rules g = None \<longrightarrow> \<not> isCommandAllowed_file c g)
   \<and> (fst (isAllowedOnce c f) \<longrightarrow> (\<exists>xs. once_commands f = Some xs \<and> JStr c \<in> set xs))
   \<and> (isCommandAllowed_file c g \<longrightarrow>
        (\<exists>xs r. durable_rules g = Some xs \<and> JStr r \<in> set xs \<and> rule_allows c r))"
proof -
  have a: "isAllowedOnce c f = (False, f)" if "f = Absent \<or> f = Unparseable \<or> once_commands f = None"
  proof (cases "once_commands f")
    case None
    then show ?thesis by (rule once_commands_None_miss)
  next
    case (Some xs)
    with that have "xs = []" by (auto simp: once_commands_def)
    with Some show ?thesis by (simp add: isAllowedOnce_list)
  qed
  have d: "\<exists>xs r. durable_rules g = Some xs \<and> JStr r \<in> set xs \<and> rule_allows c r"
    if "isCommandAllowed_file c g"
    using that by (rule isCommandAllowed_file_shape)
  have b: "\<not> isCommandAllowed_file c g" if "g = Absent \<or> g = Unparseable \<or> durable_rules g = None"
  proof
    assume "isCommandAllowed_file c g"
    then obtain xs r where "durable_rules g = Some xs" "JStr r \<in> set xs" by (blast dest: d)
    with that show False by (auto simp: durable_rules_def)
  qed
  have e: "\<exists>xs. once_commands f = Some xs \<and> JStr c \<in> set xs" if "fst (isAllowedOnce c f)"
  proof -
    from that obtain kvs xs where "f = Parsed (JObj kvs)"
      "map_of kvs ''commands'' = Some (JArr xs)" "JStr c \<in> set xs"
      using isAllowedOnce_hit_shape by blast
    then show ?thesis by (auto simp: once_commands_def)
  qed
  from a b d e show ?thesis by blast
qed

theorem unreadable_store_reads_as_empty_witness:
  "once_commands (Parsed JNull) = None
   \<and> isAllowedOnce_try ''echo hello'' (Parsed JNull) = Inl TypeError
   \<and> isAllowedOnce ''echo hello'' (Parsed JNull) = (False, Parsed JNull)
   \<and> durable_rules settings_number = None
   \<and> isCommandAllowed_try ''npm install lodash'' settings_number = Inl TypeError
   \<and> \<not> isCommandAllowed_file ''npm install lodash'' settings_number"
proof -
  have o: "once_commands (Parsed JNull) = None" by code_simp
  have t: "isAllowedOnce_try ''echo hello'' (Parsed JNull) = Inl TypeError" by code_simp
  have n: "durable_rules settings_number = None" by code_simp
  have u: "isCommandAllowed_try ''npm install lodash'' settings_number = Inl TypeError" by code_simp
  show ?thesis
    using unreadable_store_reads_as_empty
      [where f = "Parsed JNull" and g = settings_number and c = "''echo hello''"]
      unreadable_store_reads_as_empty
      [where f = "Parsed JNull" and g = settings_number and c = "''npm install lodash''"] o t n u
    by simp
qed

text \<open>
  C8 as stated fails for a list with an entry that is not a string: such a store is not
  read as empty. The one-time lookup still matches and consumes the string entries, and the
  durable lookup still matches a rule that stands before the first such entry.
\<close>

theorem wrongly_shaped_list_still_matches_counterexample:
  "once_commands once_mixed = Some [JNum 1, JStr ''echo hello'']
   \<and> \<not> list_all is_JStr [JNum 1, JStr ''echo hello'']
   \<and> isAllowedOnce ''echo hello'' once_mixed = (True, Parsed (JObj [(''commands'', JArr [JNum 1])]))
   \<and> durable_rules settings_mixed
        = Some [JStr ''mcp__compressed-shell__shell(command:npm install *)'', JNum 1]
   \<and> \<not> list_all is_JStr [JStr ''mcp__compressed-shell__shell(command:npm install *)'', JNum 1]
   \<and> isCommandAllowed_file ''npm install lodash'' settings_mixed"
  by code_simp

section \<open>Execution and compression\<close>

text \<open>
  When the failure to start the process comes as the event \<open>error\<close>, \<open>executeCommand\<close> settles
  with exit code 1, empty stdout, the failure message as stderr and the measured duration.
\<close>

lemma spawn_error_event_normalised:
  assumes "event r = SpawnError message"
  shows "executeCommand r = Inr \<lparr>exitCode = 1, stdout = [], stderr = message, duration = elapsed r\<rparr>"
  using assms by (simp add: executeCommand_def)

lemma spawn_error_event_normalised_example:
  "executeCommand (run w_enoent) =
     Inr \<lparr>exitCode = 1, stdout = [], stderr = ''spawn bash ENOENT'', duration = ''0.00''\<rparr>"
proof -
  have h: "event (run w_enoent) = SpawnError ''spawn bash ENOENT''"
    by (simp add: w_enoent_def)
  have "elapsed (run w_enoent) = ''0.00''" by (simp add: w_enoent_def)
  with spawn_error_event_normalised [OF h] show ?thesis by simp
qed

lemma no_pair_None: "(\<forall>a b. x \<noteq> Some (a, b)) \<longleftrightarrow> x = None"
  by (cases x) auto

lemma handleShellTool_allowed:
  assumes "fst (permission_check (process_cwd w) s (command args) (cwd args)) = Allow"
    and "executeCommand (run w) = Inr result"
  shows "handleShellTool w s args =
     Inr (let out = fullOutput result;
              s' = snd (permission_check (process_cwd w) s (command args) (cwd args))
          in if shouldCompress (compress args) (command args) (lineCount out)
             then \<lparr>response =
                     \<lparr>text_of = finalOutput_compressed result (logFile w) (compressWithHaiku (oracle_result w)),
                      isError = (exitCode result \<noteq> 0)\<rparr>,
                   fs_after = s', executed = Some result, artifact = Some (logFile w, out)\<rparr>
             else \<lparr>response = \<lparr>text_of = out, isError = (exitCode result \<noteq> 0)\<rparr>,
                   fs_after = s', executed = Some result, artifact = None\<rparr>)"
proof -
  obtain d s' where p: "permission_check (process_cwd w) s (command args) (cwd args) = (d, s')"
    by (cases "permission_check (process_cwd w) s (command args) (cwd args)")
  with assms(1) have "d = Allow" by simp
  with p assms(2) show ?thesis by (simp add: handleShellTool_def Let_def)
qed

lemma handleShellTool_rejected:
  assumes "fst (permission_check (process_cwd w) s (command args) (cwd args)) = Allow"
    and "executeCommand (run w) = Inl e"
  shows "handleShellTool w s args
           = Inl (e, snd (permission_check (process_cwd w) s (command args) (cwd args)))"
proof -
  obtain d s' where p: "permission_check (process_cwd w) s (command args) (cwd args) = (d, s')"
    by (cases "permission_check (process_cwd w) s (command args) (cwd args)")
  with assms(1) have "d = Allow" by simp
  with p assms(2) show ?thesis by (simp add: handleShellTool_def)
qed

text \<open>
  C7 fails on the code when \<open>spawn\<close> itself throws, as it does for a command that holds a
  NUL character: the safe command \<open>ls\<close> followed by a blank and NUL is allowed, the promise
  of \<open>executeCommand\<close> is rejected with the exception instead of settling with a result of
  exit code 1, and \<open>handleShellTool\<close> is rejected with it.
\<close>

theorem spawn_exception_not_normalised:
  "fst (permission_check (process_cwd w_throw) empty_fs (command args_nul) (cwd args_nul)) = Allow
   \<and> event (run w_throw) = SpawnThrows ''The argument args[1] must be a string without null bytes''
   \<and> executeCommand (run w_throw)
       = Inl (SpawnException ''The argument args[1] must be a string without null bytes'')
   \<and> isl (handleShellTool w_throw empty_fs args_nul)
   \<and> fst (projl (handleShellTool w_throw empty_fs args_nul))
       = SpawnException ''The argument args[1] must be a string without null bytes''"
proof -
  have a: "fst (permission_check (process_cwd w_throw) empty_fs (command args_nul) (cwd args_nul)) = Allow"
    by code_simp
  have e: "event (run w_throw) = SpawnThrows ''The argument args[1] must be a string without null bytes''"
    by (simp add: w_throw_def)
  then have x: "executeCommand (run w_throw)
       = Inl (SpawnException ''The argument args[1] must be a string without null bytes'')"
    by (simp add: executeCommand_def)
  from a e x handleShellTool_rejected [OF a x] show ?thesis by simp
qed

text \<open>
  C10: for a command that was allowed and whose execution settled, the error flag of the
  response is set exactly when the reported exit code is not zero; a process that closes
  without an exit code (killed by a signal) is reported with exit code 0, so the error flag
  is false.
\<close>

theorem signal_exit_reported_as_success:
  assumes "fst (permission_check (process_cwd w) s (command args) (cwd args)) = Allow"
  shows "(\<forall>result. executeCommand (run w) = Inr result \<longrightarrow>
            (\<exists>out. handleShellTool w s args = Inr out
               \<and> (isError (response out) \<longleftrightarrow> exitCode result \<noteq> 0)
               \<and> executed out = Some result))
       \<and> (event (run w) = Close None \<longrightarrow>
            (\<exists>result out. executeCommand (run w) = Inr result \<and> exitCode result = 0
               \<and> handleShellTool w s args = Inr out \<and> executed out = Some result
               \<and> \<not> isError (response out)))"
proof -
  have a: "\<exists>out. handleShellTool w s args = Inr out
               \<and> (isError (response out) \<longleftrightarrow> exitCode result \<noteq> 0)
               \<and> executed out = Some result"
    if "executeCommand (run w) = Inr result" for result
    by (simp add: handleShellTool_allowed [OF assms that] Let_def)
  have b: "\<exists>result. executeCommand (run w) = Inr result \<and> exitCode result = 0"
    if "event (run w) = Close None"
    using that by (simp add: executeCommand_def)
  from a b show ?thesis by (metis (no_types))
qed

theorem signal_exit_reported_as_success_witness:
  "fst (permission_check (process_cwd w_signal) empty_fs ''ls'' None) = Allow
   \<and> event (run w_signal) = Close None
   \<and> (\<exists>result out. executeCommand (run w_signal) = Inr result \<and> exitCode result = 0
         \<and> handleShellTool w_signal empty_fs \<lparr>command = ''ls'', cwd = None, compress = None\<rparr> = Inr out
         \<and> executed out = Some result \<and> \<not> isError (response out))"
proof -
  have h: "fst (permission_check (process_cwd w_signal) empty_fs ''ls'' None) = Allow"
    by code_simp
  have e: "event (run w_signal) = Close None" by (simp add: w_signal_def)
  show ?thesis
    using h e signal_exit_reported_as_success [of w_signal empty_fs "\<lparr>command = ''ls'', cwd = None, compress = None\<rparr>"]
    by simp
qed

text \<open>
  C5: for a command that was allowed and whose execution settled, compression is performed
  exactly when the compress flag is true, or it is not false and some segment of the
  command between the operators \<open>&&\<close>, \<open>||\<close>, \<open>;\<close>, \<open>|\<close> has a first word that is an entry of
  the verbose catalog or starts with an entry and a hyphen, and the combined output has at
  least 30 lines. Performed means: the combined output is written to the log file, the
  oracle is asked, and an answer of more than 10 characters replaces the output in the
  response, under the banner with the line count, the exit code, the duration and the path
  of the log file. Otherwise nothing is written and the response is the combined output
  unchanged.
\<close>

theorem compression_decision:
  assumes "fst (permission_check (process_cwd w) s (command args) (cwd args)) = Allow"
    and "executeCommand (run w) = Inr result"
  shows "\<exists>out. handleShellTool w s args = Inr out
      \<and> (artifact out \<noteq> None \<longleftrightarrow>
           compress args = Some True
           \<or> (compress args \<noteq> Some False
              \<and> (\<exists>seg\<in>set (split_ops (command args)). \<exists>vc\<in>set VERBOSE_COMMANDS.
                    firstWord seg = vc \<or> prefix (vc @ ''-'') (firstWord seg))
              \<and> 30 \<le> lineCount (fullOutput result)))
      \<and> (artifact out \<noteq> None \<longrightarrow>
           artifact out = Some (logFile w, fullOutput result)
           \<and> (\<forall>t. oracle_result w = CliOutput t \<and> 10 < length (trim t) \<longrightarrow>
                text_of (response out) =
                  ''[Compressed from '' @ show_nat (lineCount (fullOutput result))
                  @ '' lines | Exit: '' @ show_int (exitCode result)
                  @ '' | Duration: '' @ duration result @ ''s]'' @ NL
                  @ ''[Full output: '' @ logFile w @ '']'' @ NL @ NL @ trim t))
      \<and> (artifact out = None \<longrightarrow> text_of (response out) = fullOutput result)"
  by (simp add: handleShellTool_allowed [OF assms] Let_def shouldCompress_def isVerboseCommand_def
      MIN_LINES_def list_ex_iff finalOutput_compressed_def compressWithHaiku_def)

theorem compression_decision_witness:
  "fst (permission_check (process_cwd w_long_ok) empty_fs (command args_npm) (cwd args_npm)) = Allow
   \<and> compress args_npm \<noteq> Some True
   \<and> (\<exists>result out. executeCommand (run w_long_ok) = Inr result
        \<and> lineCount (fullOutput result) = 30
        \<and> handleShellTool w_long_ok empty_fs args_npm = Inr out
        \<and> artifact out = Some (logFile w_long_ok, fullOutput result)
        \<and> text_of (response out) =
            ''[Compressed from 30 lines | Exit: 0 | Duration: 3.20s]'' @ NL
            @ ''[Full output: /tmp/compressed-shell-logs/t.log]'' @ NL @ NL
            @ ''SUCCESS: 2 packages installed'')
   \<and> (\<exists>result out. executeCommand (run w0) = Inr result
        \<and> lineCount (fullOutput result) = 1
        \<and> handleShellTool w0 empty_fs args_npm = Inr out
        \<and> artifact out = None \<and> text_of (response out) = ''hello'')"
proof -
  define r1 where "r1 = \<lparr>exitCode = 0, stdout = replicate 29 (CHR 0x0A), stderr = [], duration = ''3.20''\<rparr>"
  define r0 where "r0 = \<lparr>exitCode = 0, stdout = ''hello'', stderr = [], duration = ''0.01''\<rparr>"
  have h: "fst (permission_check (process_cwd w_long_ok) empty_fs (command args_npm) (cwd args_npm)) = Allow"
    by code_simp
  have h0: "fst (permission_check (process_cwd w0) empty_fs (command args_npm) (cwd args_npm)) = Allow"
    by code_simp
  have x1: "executeCommand (run w_long_ok) = Inr r1"
    by (simp add: w_long_ok_def w_long_def w0_def executeCommand_def r1_def)
  have x0: "executeCommand (run w0) = Inr r0"
    by (simp add: w0_def executeCommand_def r0_def)
  have c: "compress args_npm = None" by (simp add: args_npm_def)
  have v: "\<exists>seg\<in>set (split_ops (command args_npm)). \<exists>vc\<in>set VERBOSE_COMMANDS.
             firstWord seg = vc \<or> prefix (vc @ ''-'') (firstWord seg)"
    by code_simp
  have f1: "fullOutput r1 = replicate 29 (CHR 0x0A)" by (simp add: fullOutput_def r1_def)
  have l1: "lineCount (fullOutput r1) = 30" unfolding f1 by code_simp
  have f0: "fullOutput r0 = ''hello''" by (simp add: fullOutput_def r0_def)
  have l0: "lineCount (fullOutput r0) = 1" unfolding f0 by code_simp
  have n: "\<not> (30::nat) \<le> 1" by simp
  have o: "oracle_result w_long_ok = CliOutput ''SUCCESS: 2 packages installed''"
    "logFile w_long_ok = ''/tmp/compressed-shell-logs/t.log''"
    by (simp_all add: w_long_ok_def w_long_def w0_def)
  have t: "trim ''SUCCESS: 2 packages installed'' = ''SUCCESS: 2 packages installed''" by code_simp
  have sn: "show_nat 30 = ''30''" by code_simp
  have si: "show_int 0 = ''0''" by code_simp
  have e1: "exitCode r1 = 0" "duration r1 = ''3.20''" by (simp_all add: r1_def)
  obtain out1 where a1: "handleShellTool w_long_ok empty_fs args_npm = Inr out1"
    and b1: "artifact out1 = Some (logFile w_long_ok, fullOutput r1)"
    and c1: "text_of (response out1) =
            ''[Compressed from 30 lines | Exit: 0 | Duration: 3.20s]'' @ NL
            @ ''[Full output: /tmp/compressed-shell-logs/t.log]'' @ NL @ NL
            @ ''SUCCESS: 2 packages installed''"
    using compression_decision [OF h x1] c v l1 o t sn si e1 by auto
  obtain out0 where a0: "handleShellTool w0 empty_fs args_npm = Inr out0"
    and b0: "artifact out0 = None" and c0: "text_of (response out0) = ''hello''"
    using compression_decision [OF h0 x0] c l0 n f0 by (auto simp: no_pair_None)
  have cc: "compress args_npm \<noteq> Some True" using c by simp
  have p1: "\<exists>result out. executeCommand (run w_long_ok) = Inr result
        \<and> lineCount (fullOutput result) = 30
        \<and> handleShellTool w_long_ok empty_fs args_npm = Inr out
        \<and> artifact out = Some (logFile w_long_ok, fullOutput result)
        \<and> text_of (response out) =
            ''[Compressed from 30 lines | Exit: 0 | Duration: 3.20s]'' @ NL
            @ ''[Full output: /tmp/compressed-shell-logs/t.log]'' @ NL @ NL
            @ ''SUCCESS: 2 packages installed''"
    using x1 l1 a1 b1 c1 by (intro exI [of _ r1] exI [of _ out1] conjI)
  have p0: "\<exists>result out. executeCommand (run w0) = Inr result
        \<and> lineCount (fullOutput result) = 1
        \<and> handleShellTool w0 empty_fs args_npm = Inr out
        \<and> artifact out = None \<and> text_of (response out) = ''hello''"
    using x0 l0 a0 b0 c0 by (intro exI [of _ r0] exI [of _ out0] conjI)
  from h cc p1 p0 show ?thesis by (intro conjI)
qed

text \<open>
  C2, as the code has it: on the compress path the raw output is persisted; when the oracle
  fails (time out included) with a message, the text is the banner with that message, the
  line with the path of the log file, an empty line and the complete combined output; when
  the oracle returns a text of at most 10 characters after trimming, the text is the
  complete combined output alone, with no banner.
\<close>

theorem compression_fallback:
  assumes "fst (permission_check (process_cwd w) s (command args) (cwd args)) = Allow"
    and "executeCommand (run w) = Inr result"
    and "shouldCompress (compress args) (command args) (lineCount (fullOutput result))"
  shows "\<exists>out. handleShellTool w s args = Inr out
       \<and> artifact out = Some (logFile w, fullOutput result)
       \<and> (\<forall>message. oracle_result w = CliFailure message \<and> message \<noteq> [] \<longrightarrow>
            text_of (response out) =
              ''[Compression failed: '' @ message @ '']'' @ NL
              @ ''[Full output: '' @ logFile w @ '']'' @ NL @ NL
              @ fullOutput result)
       \<and> (\<forall>t. oracle_result w = CliOutput t \<and> length (trim t) \<le> 10 \<longrightarrow>
            text_of (response out) = fullOutput result)"
  using assms(3)
  by (auto simp: handleShellTool_allowed [OF assms(1,2)] Let_def finalOutput_compressed_def
      compressWithHaiku_def)

theorem compression_fallback_witness:
  "fst (permission_check (process_cwd w0) empty_fs (command args_forced) (cwd args_forced)) = Allow
   \<and> oracle_result w0 = CliFailure ''spawnSync /bin/sh ETIMEDOUT''
   \<and> (\<exists>result out. executeCommand (run w0) = Inr result \<and> fullOutput result = ''hello''
        \<and> shouldCompress (compress args_forced) (command args_forced) (lineCount (fullOutput result))
        \<and> handleShellTool w0 empty_fs args_forced = Inr out
        \<and> artifact out = Some (''/tmp/compressed-shell-logs/t.log'', ''hello'')
        \<and> text_of (response out) =
            ''[Compression failed: spawnSync /bin/sh ETIMEDOUT]'' @ NL
            @ ''[Full output: /tmp/compressed-shell-logs/t.log]'' @ NL @ NL @ ''hello'')
   \<and> oracle_result w_short = CliOutput ''ok''
   \<and> (\<exists>out. handleShellTool w_short empty_fs args_forced = Inr out
        \<and> text_of (response out) = ''hello'')"
proof -
  define r0 where "r0 = \<lparr>exitCode = 0, stdout = ''hello'', stderr = [], duration = ''0.01''\<rparr>"
  have h: "fst (permission_check (process_cwd w0) empty_fs (command args_forced) (cwd args_forced)) = Allow"
    by code_simp
  have hs: "fst (permission_check (process_cwd w_short) empty_fs (command args_forced) (cwd args_forced)) = Allow"
    by code_simp
  have x: "executeCommand (run w0) = Inr r0"
    by (simp add: w0_def executeCommand_def r0_def)
  have xs: "executeCommand (run w_short) = Inr r0"
    by (simp add: w_short_def w0_def executeCommand_def r0_def)
  have f: "fullOutput r0 = ''hello''" by (simp add: fullOutput_def r0_def)
  have c: "shouldCompress (compress args_forced) (command args_forced) (lineCount (fullOutput r0))"
    by (simp add: shouldCompress_def args_forced_def)
  have o: "oracle_result w0 = CliFailure ''spawnSync /bin/sh ETIMEDOUT''"
    "logFile w0 = ''/tmp/compressed-shell-logs/t.log''"
    by (simp_all add: w0_def)
  have os: "oracle_result w_short = CliOutput ''ok''"
    by (simp add: w_short_def)
  have t: "length (trim ''ok'') \<le> 10" by code_simp
  obtain out where a: "handleShellTool w0 empty_fs args_forced = Inr out"
    and b: "artifact out = Some (''/tmp/compressed-shell-logs/t.log'', ''hello'')"
    and d: "text_of (response out) =
            ''[Compression failed: spawnSync /bin/sh ETIMEDOUT]'' @ NL
            @ ''[Full output: /tmp/compressed-shell-logs/t.log]'' @ NL @ NL @ ''hello''"
    using compression_fallback [OF h x c] o f by auto
  obtain outs where as: "handleShellTool w_short empty_fs args_forced = Inr outs"
    and ds: "text_of (response outs) = ''hello''"
    using compression_fallback [OF hs xs c] os t f by auto
  from h o(1) x f c a b d os as ds show ?thesis by blast
qed

text \<open>
  C2 as stated fails for a degenerate result: the oracle answers \<open>ok\<close> and the response is the
  combined output with no banner and no path.
\<close>

theorem degenerate_result_no_banner_counterexample:
  "\<not> isl (handleShellTool w_short empty_fs args_forced)
   \<and> artifact (projr (handleShellTool w_short empty_fs args_forced)) = Some (logFile w_short, ''hello'')
   \<and> compressWithHaiku (oracle_result w_short) = Text ''ok''
   \<and> text_of (response (projr (handleShellTool w_short empty_fs args_forced))) = ''hello''
   \<and> \<not> prefix ''[Compression failed''
         (text_of (response (projr (handleShellTool w_short empty_fs args_forced))))"
  by code_simp

end
